theory Spec2Isabelle
  imports
    Complex_Main
    "HOL-Library.Multiset"
    "HOL-Library.Char_ord"
    "HOL-Library.List_Lexorder"
begin

section \<open>JavaScript values used by the utilities\<close>

text \<open>
  \<open>x || 0\<close> on an optional number: a missing (undefined or null) value and the number
  0 both give 0, every other number gives itself.
\<close>

definition or0 :: "int option \<Rightarrow> int" where
  "or0 v = (case v of None \<Rightarrow> 0 | Some n \<Rightarrow> n)"

text \<open>
  Truthiness of an optional number, as in \<open>if (task.time_estimate)\<close>: a missing value and
  0 are falsy.
\<close>

definition truthy :: "int option \<Rightarrow> bool" where
  "truthy v = (case v of None \<Rightarrow> False | Some n \<Rightarrow> n \<noteq> 0)"

text \<open>Decimal rendering of a natural number, as a template literal prints it.\<close>

fun show_nat :: "nat \<Rightarrow> string" where
  "show_nat n =
     (if n < 10 then [char_of (48 + n)]
      else show_nat (n div 10) @ [char_of (48 + n mod 10)])"

text \<open>
  A property read \<open>obj[key]\<close> on an object literal whose own properties are numbers. A
  key the literal does not define is looked up in \<open>Object.prototype\<close>: the members
  every object inherits are found there, and any other key is undefined (\<open>None\<close>).
  \<open>Inherited k\<close> is the inherited member named \<open>k\<close> (a function; for \<open>__proto__\<close> the
  prototype object): truthy, not a number, and a different value for each name. Nothing
  is taken to have been added to \<open>Object.prototype\<close>.
\<close>

datatype js_value = Number int | Inherited string

definition Object_prototype :: "string list" where
  "Object_prototype =
     [''constructor'', ''hasOwnProperty'', ''isPrototypeOf'', ''propertyIsEnumerable'',
      ''toLocaleString'', ''toString'', ''valueOf'', ''__proto__'', ''__defineGetter__'',
      ''__defineSetter__'', ''__lookupGetter__'', ''__lookupSetter__'']"

definition property :: "(string \<times> int) list \<Rightarrow> string \<Rightarrow> js_value option" where
  "property own key =
     (case map_of own key of
        Some n \<Rightarrow> Some (Number n)
      | None \<Rightarrow> if key \<in> set Object_prototype then Some (Inherited key) else None)"

text \<open>\<open>v || d\<close> on such a value: undefined and the number 0 give \<open>d\<close>.\<close>

definition or_else :: "js_value option \<Rightarrow> js_value \<Rightarrow> js_value" where
  "or_else v d = (case v of None \<Rightarrow> d | Some x \<Rightarrow> if x = Number 0 then d else x)"

section \<open>Focus sessions: \<open>detectProductivityPatterns\<close> and \<open>analyzeBurnoutRisk\<close>\<close>

text \<open>
  A focus session as the functions read it. \<open>started_at\<close> is the time value
  (milliseconds since the epoch) of \<open>new Date(session.started_at)\<close>, \<open>None\<close> when the
  field is missing, null or the empty string (falsy). \<open>duration\<close> is in whole minutes.
\<close>

record FocusSession =
  duration :: "int option"
  started_at :: "int option"
  completed :: bool

text \<open>
  \<open>Date.prototype.getHours\<close>: the hour of the local wall clock. \<open>tz t\<close> is the local
  offset from UTC, in milliseconds, in force at the instant \<open>t\<close>.
\<close>

definition getHours :: "(int \<Rightarrow> int) \<Rightarrow> int \<Rightarrow> nat" where
  "getHours tz t = nat (((t + tz t) div 3600000) mod 24)"

text \<open>
  \<open>hourlyStats\<close> is an object keyed by the hour; every entry holds \<open>count\<close> and
  \<open>totalDuration\<close>.
\<close>

type_synonym hourlyStats = "nat \<rightharpoonup> nat \<times> int"

text \<open>The body of the \<open>forEach\<close> over the completed sessions.\<close>

definition record_session :: "(int \<Rightarrow> int) \<Rightarrow> hourlyStats \<Rightarrow> FocusSession \<Rightarrow> hourlyStats" where
  "record_session tz stats session =
     (case started_at session of
        None \<Rightarrow> stats
      | Some t \<Rightarrow>
          (let hour = getHours tz t;
               entry = (case stats hour of None \<Rightarrow> (0, 0) | Some e \<Rightarrow> e)
           in stats(hour \<mapsto> (fst entry + 1, snd entry + or0 (duration session)))))"

text \<open>
  \<open>Object.entries(hourlyStats)\<close>. The keys are the integers 0 to 23, and JavaScript
  enumerates integer keys of an object in ascending numeric order, whatever the order in
  which they were created.
\<close>

definition entries :: "hourlyStats \<Rightarrow> (nat \<times> nat \<times> int) list" where
  "entries stats =
     concat (map (\<lambda>h. case stats h of None \<Rightarrow> [] | Some e \<Rightarrow> [(h, e)]) [0..<24])"

text \<open>
  The body of the \<open>forEach\<close> over the entries; the accumulator is
  \<open>(bestHour, bestCount)\<close>.
\<close>

definition pick_best :: "nat option \<times> nat \<Rightarrow> nat \<times> nat \<times> int \<Rightarrow> nat option \<times> nat" where
  "pick_best acc e = (if fst (snd e) > snd acc then (Some (fst e), fst (snd e)) else acc)"

text \<open>
  \<open>bestHour < 12 ? "morning" : bestHour < 17 ? "afternoon" : "evening"\<close>; a null
  \<open>bestHour\<close> is converted to 0 by the comparison.
\<close>

definition timeLabel :: "nat option \<Rightarrow> string" where
  "timeLabel bestHour =
     (let h = (case bestHour of None \<Rightarrow> 0 | Some h \<Rightarrow> h)
      in if h < 12 then ''morning'' else if h < 17 then ''afternoon'' else ''evening'')"

datatype ProductivityPattern =
  InsufficientData (message: string)
| Identified (peakHour: "nat option") (peakTimeLabel: string) (sessionsInPeakHour: nat)
    (message: string)

definition pattern :: "ProductivityPattern \<Rightarrow> string" where
  "pattern r = (case r of InsufficientData _ \<Rightarrow> ''insufficient_data''
                        | Identified _ _ _ _ \<Rightarrow> ''identified'')"

definition pattern_message :: "nat option \<Rightarrow> string" where
  "pattern_message bestHour =
     ''You're most productive in the '' @ timeLabel bestHour @ '' (around ''
       @ (case bestHour of None \<Rightarrow> ''null'' | Some h \<Rightarrow> show_nat h)
       @ '':00). Schedule important tasks during this time.''"

definition detectProductivityPatterns :: "(int \<Rightarrow> int) \<Rightarrow> FocusSession list \<Rightarrow> ProductivityPattern" where
  "detectProductivityPatterns tz focusSessions =
     (let completedSessions = filter completed focusSessions
      in if length completedSessions < 5
         then InsufficientData
                ''Complete more focus sessions to see your productivity patterns.''
         else
           (let hourlyStats = foldl (record_session tz) Map.empty completedSessions;
                best = foldl pick_best (None, 0) (entries hourlyStats)
            in Identified (fst best) (timeLabel (fst best)) (snd best)
                 (pattern_message (fst best))))"

text \<open>
  The number of completed sessions that start in hour \<open>h\<close>: the count the
  specification ranks the hours by.
\<close>

definition hourCount :: "(int \<Rightarrow> int) \<Rightarrow> FocusSession list \<Rightarrow> nat \<Rightarrow> nat" where
  "hourCount tz ss h =
     length (filter (\<lambda>s. completed s \<and>
       (case started_at s of None \<Rightarrow> False | Some t \<Rightarrow> getHours tz t = h)) ss)"

text \<open>
  The peak hour as the specification words it: the hours are taken in the order in which
  the completed sessions first show them, and an hour replaces the best one only when its
  count is strictly greater.
\<close>

definition seenHours :: "(int \<Rightarrow> int) \<Rightarrow> FocusSession list \<Rightarrow> nat list" where
  "seenHours tz ss =
     rev (remdups (rev (map (getHours tz) (List.map_filter started_at (filter completed ss)))))"

definition firstSeenPeak :: "(int \<Rightarrow> int) \<Rightarrow> FocusSession list \<Rightarrow> nat option" where
  "firstSeenPeak tz ss =
     fst (foldl (\<lambda>acc h. if hourCount tz ss h > snd acc then (Some h, hourCount tz ss h) else acc)
            (None, 0) (seenHours tz ss))"

text \<open>Example input: completed 25-minute sessions by the UTC hour they start in.\<close>

definition session_at :: "int \<Rightarrow> FocusSession" where
  "session_at hour =
     \<lparr>duration = Some 25, started_at = Some (hour * 3600000), completed = True\<rparr>"

definition tie_sessions :: "FocusSession list" where
  "tie_sessions = [session_at 14, session_at 14, session_at 9, session_at 9, session_at 20]"

definition unstarted_session :: FocusSession where
  "unstarted_session = \<lparr>duration = Some 25, started_at = None, completed = True\<rparr>"

subsection \<open>\<open>analyzeBurnoutRisk\<close>\<close>

text \<open>
  \<open>now\<close> is the time value of \<open>new Date()\<close>. The second parameter of the source,
  \<open>tasks\<close>, is never read and is kept for the signature only. The source returns
  \<open>hoursPerDay\<close> and \<open>totalWeeklyHours\<close> through \<open>toFixed(1)\<close>; the record holds the
  numbers before that formatting. The durations are whole minutes, so the two divisions
  are taken exactly: the quotient of an integer total is never closer to a threshold than
  1/420, far more than the rounding of a double.
\<close>

record BurnoutAnalysis =
  riskLevel :: string
  hoursPerDay :: rat
  recommendation :: string
  totalWeeklyHours :: rat

definition recentSessions :: "int \<Rightarrow> FocusSession list \<Rightarrow> FocusSession list" where
  "recentSessions now focusSessions =
     (let sevenDaysAgo = now - 7 * 24 * 60 * 60 * 1000
      in filter (\<lambda>session. case started_at session of
                              None \<Rightarrow> False
                            | Some t \<Rightarrow> t > sevenDaysAgo) focusSessions)"

definition totalMinutes :: "int \<Rightarrow> FocusSession list \<Rightarrow> int" where
  "totalMinutes now focusSessions =
     foldl (\<lambda>sum session. sum + or0 (duration session)) 0 (recentSessions now focusSessions)"

definition analyzeBurnoutRisk :: "int \<Rightarrow> FocusSession list \<Rightarrow> 'tasks \<Rightarrow> BurnoutAnalysis" where
  "analyzeBurnoutRisk now focusSessions tasks =
     (let total = totalMinutes now focusSessions;
          dailyAverage = of_int total / 7;
          hours = dailyAverage / 60
      in if hours > 10 then
           \<lparr>riskLevel = ''high'', hoursPerDay = hours,
            recommendation =
              ''You're working very long hours. Consider taking breaks and delegating tasks.'',
            totalWeeklyHours = of_int total / 60\<rparr>
         else if hours > 8 then
           \<lparr>riskLevel = ''medium'', hoursPerDay = hours,
            recommendation =
              ''Your workload is high. Try to schedule regular breaks throughout the day.'',
            totalWeeklyHours = of_int total / 60\<rparr>
         else
           \<lparr>riskLevel = ''low'', hoursPerDay = hours,
            recommendation = ''You're maintaining a healthy work balance.'',
            totalWeeklyHours = of_int total / 60\<rparr>)"

text \<open>
  The window as the specification words it: started-at within the trailing seven days of
  now, the instant \<open>now - 7 * 24h\<close> included.
\<close>

definition inTrailingWeek :: "int \<Rightarrow> FocusSession \<Rightarrow> bool" where
  "inTrailingWeek now session =
     (case started_at session of
        None \<Rightarrow> False
      | Some t \<Rightarrow> now - 7 * 24 * 60 * 60 * 1000 \<le> t \<and> t \<le> now)"

definition trailingWeekRisk :: "int \<Rightarrow> FocusSession list \<Rightarrow> string" where
  "trailingWeekRisk now focusSessions =
     (let total = sum_list (map (\<lambda>s. or0 (duration s)) (filter (inTrailingWeek now) focusSessions));
          hours = (of_int total :: rat) / 7 / 60
      in if hours > 10 then ''high'' else if hours > 8 then ''medium'' else ''low'')"

definition boundary_session :: FocusSession where
  "boundary_session = \<lparr>duration = Some 5000, started_at = Some 0, completed = True\<rparr>"

section \<open>Tasks: recommendations, duration estimates and the streak\<close>

text \<open>
  A task as the functions read it. \<open>status\<close>, \<open>priority\<close> and \<open>category\<close> are
  strings. \<open>due_date\<close> and \<open>completed_at\<close> hold the time value of the date
  (milliseconds since the epoch), \<open>None\<close> when the field is missing, null or empty;
  a date that is present is taken to be one that \<open>new Date\<close> can read.
  \<open>time_estimate\<close> is in whole minutes.
\<close>

record Task =
  title :: string
  status :: string
  priority :: string
  category :: string
  due_date :: "int option"
  completed_at :: "int option"
  time_estimate :: "int option"

subsection \<open>\<open>generateSmartTaskRecommendations\<close>\<close>

text \<open>The object \<open>{ high: 3, medium: 2, low: 1 }\<close>, read by \<open>priorityWeight[key]\<close>.\<close>

definition priorityWeight :: "string \<Rightarrow> js_value option" where
  "priorityWeight p = property [(''high'', 3), (''medium'', 2), (''low'', 1)] p"

text \<open>
  The comparison function handed to \<open>sort\<close>. \<open>!==\<close> compares numbers by value and
  inherited members by identity. When the two weights differ and one of them is not a
  number, the subtraction is NaN, which \<open>sort\<close> reads as 0.
\<close>

definition compareTasks :: "Task \<Rightarrow> Task \<Rightarrow> int" where
  "compareTasks a b =
     (if priorityWeight (priority a) \<noteq> priorityWeight (priority b) then
        (case (priorityWeight (priority b), priorityWeight (priority a)) of
           (Some (Number wb), Some (Number wa)) \<Rightarrow> wb - wa
         | _ \<Rightarrow> 0)
      else
        (case (due_date a, due_date b) of
           (Some da, Some db) \<Rightarrow> da - db
         | _ \<Rightarrow> 0))"

text \<open>
  \<open>Array.prototype.sort\<close> is built in, and the function below takes it as the parameter
  \<open>array_sort\<close>. What the language prescribes for it is stated next. A comparison
  function is consistent for a set of values when it is reflexive and symmetric where it
  is 0 and transitive where it is 0, where it is negative and where it is positive.
\<close>

definition consistent_comparator :: "('a \<Rightarrow> 'a \<Rightarrow> int) \<Rightarrow> 'a set \<Rightarrow> bool" where
  "consistent_comparator cmp S =
     ((\<forall>a \<in> S. cmp a a = 0)
      \<and> (\<forall>a \<in> S. \<forall>b \<in> S. cmp a b = 0 \<longrightarrow> cmp b a = 0)
      \<and> (\<forall>a \<in> S. \<forall>b \<in> S. \<forall>c \<in> S. cmp a b = 0 \<and> cmp b c = 0 \<longrightarrow> cmp a c = 0)
      \<and> (\<forall>a \<in> S. \<forall>b \<in> S. \<forall>c \<in> S. cmp a b < 0 \<and> cmp b c < 0 \<longrightarrow> cmp a c < 0)
      \<and> (\<forall>a \<in> S. \<forall>b \<in> S. \<forall>c \<in> S. cmp a b > 0 \<and> cmp b c > 0 \<longrightarrow> cmp a c > 0))"

text \<open>
  For a consistent comparison function the result is the sorted order, and the sort is
  stable: an element goes in front of the first element it is strictly less than, and so
  stays behind every earlier element it compares equal to.
\<close>

fun insert_by :: "('a \<Rightarrow> 'a \<Rightarrow> int) \<Rightarrow> 'a \<Rightarrow> 'a list \<Rightarrow> 'a list" where
  "insert_by cmp x [] = [x]"
| "insert_by cmp x (y # ys) =
     (if cmp x y < 0 then x # y # ys else y # insert_by cmp x ys)"

definition stable_sort :: "('a \<Rightarrow> 'a \<Rightarrow> int) \<Rightarrow> 'a list \<Rightarrow> 'a list" where
  "stable_sort cmp xs = foldl (\<lambda>sorted x. insert_by cmp x sorted) [] xs"

text \<open>
  A sort conforms when it rearranges the elements and, where the comparison function is
  consistent for them, returns that order. Where the comparison function is not
  consistent the order is left to the engine.
\<close>

definition conforming :: "(('a \<Rightarrow> 'a \<Rightarrow> int) \<Rightarrow> 'a list \<Rightarrow> 'a list) \<Rightarrow> bool" where
  "conforming srt =
     (\<forall>cmp xs. mset (srt cmp xs) = mset xs
        \<and> (consistent_comparator cmp (set xs) \<longrightarrow> srt cmp xs = stable_sort cmp xs))"

text \<open>
  The sort of the V8 engine (Chrome, Node) on an array of fewer than 64 elements, the
  engine's \<open>CountAndMakeRun\<close> and \<open>BinaryInsertionSort\<close>: the longest run at the start
  that is non-descending, or strictly descending and then reversed, is kept, and each
  later element is put where a binary search of the sorted part places it. It stands for
  the built-in sort in the examples, and shows the order one engine gives where the
  comparison function is not consistent.
\<close>

fun run_length :: "('a \<Rightarrow> 'a \<Rightarrow> int) \<Rightarrow> bool \<Rightarrow> 'a \<Rightarrow> 'a list \<Rightarrow> nat" where
  "run_length cmp isDescending previousElement [] = 0"
| "run_length cmp isDescending previousElement (currentElement # rest) =
     (let order = cmp currentElement previousElement
      in if (if isDescending then order \<ge> 0 else order < 0) then 0
         else Suc (run_length cmp isDescending currentElement rest))"

definition CountAndMakeRun :: "('a \<Rightarrow> 'a \<Rightarrow> int) \<Rightarrow> 'a list \<Rightarrow> 'a list \<times> 'a list" where
  "CountAndMakeRun cmp xs =
     (case xs of
        [] \<Rightarrow> ([], [])
      | [x] \<Rightarrow> ([x], [])
      | elementHigh # elementLow # rest \<Rightarrow>
          (let isDescending = cmp elementLow elementHigh < 0;
               runLength = 2 + run_length cmp isDescending elementLow rest
           in (if isDescending then rev (take runLength xs) else take runLength xs,
               drop runLength xs)))"

function binary_search :: "('a \<Rightarrow> 'a \<Rightarrow> int) \<Rightarrow> 'a \<Rightarrow> 'a list \<Rightarrow> nat \<Rightarrow> nat \<Rightarrow> nat" where
  "binary_search cmp pivot xs left right =
     (if left < right then
        (let mid = left + (right - left) div 2
         in if cmp pivot (xs ! mid) < 0 then binary_search cmp pivot xs left mid
            else binary_search cmp pivot xs (mid + 1) right)
      else left)"
  by pat_completeness auto
termination
  by (relation "measure (\<lambda>(_, _, _, left, right). right - left)") auto

definition binary_insert :: "('a \<Rightarrow> 'a \<Rightarrow> int) \<Rightarrow> 'a list \<Rightarrow> 'a \<Rightarrow> 'a list" where
  "binary_insert cmp workArray pivot =
     (let left = binary_search cmp pivot workArray 0 (length workArray)
      in take left workArray @ pivot # drop left workArray)"

definition v8_sort :: "('a \<Rightarrow> 'a \<Rightarrow> int) \<Rightarrow> 'a list \<Rightarrow> 'a list" where
  "v8_sort cmp xs =
     (case CountAndMakeRun cmp xs of (run, rest) \<Rightarrow> foldl (binary_insert cmp) run rest)"

record Recommendation =
  task :: Task
  reason :: string

record TaskRecommendations =
  recommendations :: "Recommendation list"
  summary :: string

definition recommend :: "Task \<Rightarrow> Recommendation" where
  "recommend t =
     \<lparr>task = t,
      reason = priority t @ '' priority'' @ (if due_date t \<noteq> None then '', due soon'' else [])\<rparr>"

definition generateSmartTaskRecommendations ::
  "((Task \<Rightarrow> Task \<Rightarrow> int) \<Rightarrow> Task list \<Rightarrow> Task list) \<Rightarrow> Task list \<Rightarrow> TaskRecommendations" where
  "generateSmartTaskRecommendations array_sort tasks =
     (let pendingTasks = filter (\<lambda>t. status t \<noteq> ''completed'') tasks
      in if length pendingTasks = 0 then
           \<lparr>recommendations = [], summary = ''All caught up! No pending tasks.''\<rparr>
         else
           (let prioritized = take 3 (array_sort compareTasks pendingTasks)
            in \<lparr>recommendations = map recommend prioritized,
                summary = ''Here are your top priorities for today:''\<rparr>))"

text \<open>The task list of the specification's example; 2024-01-01 is 1704067200000.\<close>

definition task_low :: Task where
  "task_low = \<lparr>title = ''A'', status = ''todo'', priority = ''low'', category = ''daily'',
     due_date = None, completed_at = None, time_estimate = None\<rparr>"

definition task_high :: Task where
  "task_high = \<lparr>title = ''B'', status = ''todo'', priority = ''high'', category = ''daily'',
     due_date = None, completed_at = None, time_estimate = None\<rparr>"

definition task_high_due :: Task where
  "task_high_due = \<lparr>title = ''C'', status = ''todo'', priority = ''high'', category = ''daily'',
     due_date = Some 1704067200000, completed_at = None, time_estimate = None\<rparr>"

subsection \<open>\<open>estimateTaskDuration\<close>\<close>

text \<open>The object \<open>defaults\<close>, read by \<open>defaults[task.category] || 30\<close>.\<close>

definition defaults :: "string \<Rightarrow> js_value option" where
  "defaults c =
     property [(''daily'', 15), (''weekly'', 30), (''project'', 60), (''someday'', 45)] c"

text \<open>\<open>Math.round\<close>: the nearest integer, a half rounded up.\<close>

definition Math_round :: "rat \<Rightarrow> int" where
  "Math_round x = \<lfloor>x + 1 / 2\<rfloor>"

definition similar :: "Task \<Rightarrow> Task list \<Rightarrow> Task list" where
  "similar t historicalTasks =
     filter (\<lambda>h. category h = category t \<and> status h = ''completed'' \<and> truthy (time_estimate h))
       historicalTasks"

text \<open>
  The result is a number of minutes, except where the lookup in \<open>defaults\<close> finds an
  inherited member, which is then what the function returns.
\<close>

definition estimateTaskDuration :: "Task \<Rightarrow> Task list \<Rightarrow> js_value" where
  "estimateTaskDuration t historicalTasks =
     (if truthy (time_estimate t) then Number (or0 (time_estimate t))
      else if length (similar t historicalTasks) = 0 then
        or_else (defaults (category t)) (Number 30)
      else
        (let avg = of_int (foldl (\<lambda>sum h. sum + or0 (time_estimate h)) 0 (similar t historicalTasks))
                     / of_int (int (length (similar t historicalTasks)))
         in Number (Math_round avg)))"

text \<open>
  The average as the specification words it: the mean of the time estimates of the
  completed historical tasks of the same category.
\<close>

definition averageEstimate :: "Task \<Rightarrow> Task list \<Rightarrow> rat" where
  "averageEstimate t historicalTasks =
     (let same = filter (\<lambda>h. category h = category t \<and> status h = ''completed''
                            \<and> time_estimate h \<noteq> None) historicalTasks
      in of_int (sum_list (map (\<lambda>h. or0 (time_estimate h)) same)) / of_int (int (length same)))"

definition done_daily :: "int \<Rightarrow> Task" where
  "done_daily minutes = \<lparr>title = ''done'', status = ''completed'', priority = ''low'',
     category = ''daily'', due_date = None, completed_at = Some 0,
     time_estimate = Some minutes\<rparr>"

subsection \<open>The streak\<close>

text \<open>
  The streak is computed inline, by the same statements, in the Insights page and in the
  Dashboard page. \<open>dayKey t\<close> is
  \<open>format(startOfDay(new Date(t)), "yyyy-MM-dd")\<close>, \<open>today\<close> is
  \<open>format(new Date(), "yyyy-MM-dd")\<close>, and \<open>prevDay d\<close> is the string the loop
  computes from \<open>checkDate\<close> with \<open>new Date\<close>, \<open>setDate(getDate() - 1)\<close> and
  \<open>format\<close>; the three come from the date library and the clock.
\<close>

definition completedDates :: "(int \<Rightarrow> string) \<Rightarrow> Task list \<Rightarrow> string list" where
  "completedDates dayKey tasks =
     map (\<lambda>t. dayKey (the (completed_at t))) (filter (\<lambda>t. completed_at t \<noteq> None) tasks)"

text \<open>\<open>[...new Set(xs)]\<close>: the elements in the order of their first occurrence.\<close>

definition new_Set :: "'a list \<Rightarrow> 'a list" where
  "new_Set xs = foldl (\<lambda>seen x. if x \<in> set seen then seen else seen @ [x]) [] xs"

text \<open>
  \<open>sort()\<close> without a comparison function orders strings by their code units, which for
  these ASCII strings is the lexicographic order of the characters.
\<close>

definition uniqueDates :: "(int \<Rightarrow> string) \<Rightarrow> Task list \<Rightarrow> string list" where
  "uniqueDates dayKey tasks = rev (sort (new_Set (completedDates dayKey tasks)))"

fun streak_loop :: "(string \<Rightarrow> string) \<Rightarrow> string list \<Rightarrow> string \<Rightarrow> nat \<Rightarrow> nat" where
  "streak_loop prevDay [] checkDate streak = streak"
| "streak_loop prevDay (date # rest) checkDate streak =
     (if date = checkDate then streak_loop prevDay rest (prevDay checkDate) (streak + 1)
      else streak)"

definition streak :: "(int \<Rightarrow> string) \<Rightarrow> (string \<Rightarrow> string) \<Rightarrow> string \<Rightarrow> Task list \<Rightarrow> nat" where
  "streak dayKey prevDay today tasks = streak_loop prevDay (uniqueDates dayKey tasks) today 0"

text \<open>A three-day calendar for examples.\<close>

definition day_of :: "int \<Rightarrow> string" where
  "day_of t = (if t < 86400000 then ''2024-01-01''
               else if t < 172800000 then ''2024-01-02'' else ''2024-01-03'')"

definition day_before :: "string \<Rightarrow> string" where
  "day_before d = (if d = ''2024-01-03'' then ''2024-01-02''
                   else if d = ''2024-01-02'' then ''2024-01-01'' else ''2023-12-31'')"

definition completed_on :: "int \<Rightarrow> Task" where
  "completed_on t = \<lparr>title = ''t'', status = ''completed'', priority = ''low'',
     category = ''daily'', due_date = None, completed_at = Some t, time_estimate = None\<rparr>"

section \<open>The offline queue\<close>

text \<open>Values as \<open>JSON.parse\<close> returns them.\<close>

datatype json =
  JNull
| JBool bool
| JNumber rat
| JString string
| JArray "json list"
| JObject "(string \<times> json) list"

datatype js_error = TypeError | SyntaxError | SecurityError | QuotaExceededError

text \<open>
  A queued operation, the object \<open>add\<close> pushes. \<open>id_q\<close> is the field \<open>id\<close>.
\<close>

record QueuedOperation =
  id_q :: rat
  operation :: string
  data :: json
  metadata :: json
  timestamp :: string
  attempts :: nat

text \<open>
  The browser's \<open>localStorage\<close>, as far as the queue uses it: the string under the key
  \<open>"offline_operation_queue"\<close>, and whether reading and writing throw (storage
  disabled, quota exceeded).
\<close>

record localStorage =
  stored :: "string option"
  getItem_throws :: bool
  setItem_throws :: bool

definition getItem :: "localStorage \<Rightarrow> js_error + string option" where
  "getItem st = (if getItem_throws st then Inl SecurityError else Inr (stored st))"

definition setItem :: "localStorage \<Rightarrow> string \<Rightarrow> js_error + localStorage" where
  "setItem st v =
     (if setItem_throws st then Inl QuotaExceededError else Inr (st\<lparr>stored := Some v\<rparr>))"

datatype console_entry =
  Console_log string QueuedOperation
| Console_error string js_error
| Console_warn string QueuedOperation

text \<open>
  \<open>loadQueue\<close>. \<open>JSON_parse\<close> is the built-in parser: \<open>Inl\<close> is the error it throws,
  \<open>Inr\<close> the value it returns. The result is the value the constructor stores in
  \<open>this.queue\<close>, with what the call writes to the console. An empty string is falsy, as
  null is.
\<close>

definition loadQueue ::
  "(string \<Rightarrow> js_error + json) \<Rightarrow> localStorage \<Rightarrow> json \<times> console_entry list" where
  "loadQueue JSON_parse st =
     (case getItem st of
        Inl error \<Rightarrow> (JArray [], [Console_error ''Failed to load offline queue:'' error])
      | Inr saved \<Rightarrow>
          (case saved of
             None \<Rightarrow> (JArray [], [])
           | Some str \<Rightarrow>
               if str = [] then (JArray [], [])
               else (case JSON_parse str of
                       Inl error \<Rightarrow>
                         (JArray [], [Console_error ''Failed to load offline queue:'' error])
                     | Inr v \<Rightarrow> (v, []))))"

text \<open>
  What \<open>JSON.parse\<close> returns on five short texts; every other text is left as a syntax
  error here. It stands for the parser in the examples only.
\<close>

definition parse_literal :: "string \<Rightarrow> js_error + json" where
  "parse_literal str =
     (if str = ''null'' then Inr JNull
      else if str = ''true'' then Inr (JBool True)
      else if str = ''false'' then Inr (JBool False)
      else if str = ''[]'' then Inr (JArray [])
      else if str = ''[true]'' then Inr (JArray [JBool True])
      else Inl SyntaxError)"

definition is_array :: "json \<Rightarrow> bool" where
  "is_array v = (case v of JArray _ \<Rightarrow> True | _ \<Rightarrow> False)"

text \<open>The state of an \<open>OfflineQueue\<close> object, with the storage and console it acts on.\<close>

record OfflineQueue =
  queue :: "QueuedOperation list"
  processing :: bool
  storage :: localStorage
  console :: "console_entry list"

text \<open>\<open>saveQueue\<close>. \<open>JSON_stringify\<close> is the built-in serialiser.\<close>

definition saveQueue :: "(QueuedOperation list \<Rightarrow> string) \<Rightarrow> OfflineQueue \<Rightarrow> OfflineQueue" where
  "saveQueue JSON_stringify s =
     (case setItem (storage s) (JSON_stringify (queue s)) of
        Inr st \<Rightarrow> s\<lparr>storage := st\<rparr>
      | Inl error \<Rightarrow>
          s\<lparr>console := console s @ [Console_error ''Failed to save offline queue:'' error]\<rparr>)"

text \<open>
  The \<open>try\<close> block of the loop in \<open>processQueue\<close>: it logs the head item, increments its
  \<open>attempts\<close>, shifts it off the queue and saves. No statement of it runs the operation.
  \<open>Inl\<close> is an exception, with the state it leaves: without a head the increment
  throws a TypeError, a case the condition of the loop excludes.
\<close>

definition try_block ::
  "(QueuedOperation list \<Rightarrow> string) \<Rightarrow> OfflineQueue \<Rightarrow> js_error \<times> OfflineQueue + OfflineQueue" where
  "try_block JSON_stringify s =
     (case queue s of
        [] \<Rightarrow> Inl (TypeError, s)
      | item # rest \<Rightarrow>
          (let s1 = s\<lparr>console := console s @ [Console_log ''Processing queued operation:'' item]\<rparr>;
               s2 = s1\<lparr>queue := item\<lparr>attempts := attempts item + 1\<rparr> # rest\<rparr>;
               s3 = s2\<lparr>queue := tl (queue s2)\<rparr>
           in Inr (saveQueue JSON_stringify s3)))"

text \<open>The \<open>catch\<close> block; \<open>item\<close> is the head the iteration started with.\<close>

definition catch_block ::
  "(QueuedOperation list \<Rightarrow> string) \<Rightarrow> QueuedOperation \<Rightarrow> js_error \<Rightarrow> OfflineQueue \<Rightarrow> OfflineQueue" where
  "catch_block JSON_stringify item error s =
     (let s1 = s\<lparr>console := console s
                    @ [Console_error ''Failed to process queued operation:'' error]\<rparr>
      in if attempts item \<ge> 3 then
           saveQueue JSON_stringify
             (s1\<lparr>console := console s1
                    @ [Console_warn ''Removing operation after 3 failed attempts:'' item],
                 queue := tl (queue s1)\<rparr>)
         else
           saveQueue JSON_stringify (s1\<lparr>queue := tl (queue s1) @ [hd (queue s1)]\<rparr>))"

text \<open>
  The \<open>while\<close> loop. The pass has no point of suspension, so \<open>navigator.onLine\<close> has one
  value, \<open>onLine\<close>, for all of it. The \<open>break\<close> is in the \<open>catch\<close> block only.
\<close>

function process_loop ::
  "(QueuedOperation list \<Rightarrow> string) \<Rightarrow> bool \<Rightarrow> OfflineQueue \<Rightarrow> OfflineQueue" where
  "process_loop JSON_stringify onLine s =
     (if length (queue s) > 0 \<and> onLine then
        (case try_block JSON_stringify s of
           Inr s' \<Rightarrow> process_loop JSON_stringify onLine s'
         | Inl (error, s') \<Rightarrow> catch_block JSON_stringify (hd (queue s)) error s')
      else s)"
  by pat_completeness auto
termination
proof (relation "measure (\<lambda>(_, _, s). length (queue s))")
  show "wf (measure (\<lambda>(_, _, s). length (queue s)))"
    by simp
next
  fix JSON_stringify :: "QueuedOperation list \<Rightarrow> string" and onLine :: bool
    and s s' :: OfflineQueue
  assume "0 < length (queue s) \<and> onLine" and "try_block JSON_stringify s = Inr s'"
  then show "((JSON_stringify, onLine, s'), (JSON_stringify, onLine, s))
               \<in> measure (\<lambda>(_, _, s). length (queue s))"
    by (auto simp: try_block_def saveQueue_def Let_def split: list.splits sum.splits)
qed

definition processQueue ::
  "(QueuedOperation list \<Rightarrow> string) \<Rightarrow> bool \<Rightarrow> OfflineQueue \<Rightarrow> OfflineQueue" where
  "processQueue JSON_stringify onLine s =
     (if processing s \<or> length (queue s) = 0 then s
      else (process_loop JSON_stringify onLine (s\<lparr>processing := True\<rparr>))\<lparr>processing := False\<rparr>)"

text \<open>
  \<open>add\<close>. \<open>new_id\<close> is \<open>Date.now() + Math.random()\<close> and \<open>now_iso\<close> is
  \<open>new Date().toISOString()\<close>. The result is the identifier the call resolves to and the
  state it leaves: \<open>await this.processQueue()\<close> puts the whole pass before the
  \<open>return\<close>.
\<close>

definition add ::
  "(QueuedOperation list \<Rightarrow> string) \<Rightarrow> bool \<Rightarrow> rat \<Rightarrow> string \<Rightarrow> string \<Rightarrow> json \<Rightarrow> json
     \<Rightarrow> OfflineQueue \<Rightarrow> rat \<times> OfflineQueue" where
  "add JSON_stringify onLine new_id now_iso tag payload meta s =
     (let s1 = s\<lparr>queue := queue s @
                  [\<lparr>id_q = new_id, operation = tag, data = payload, metadata = meta,
                    timestamp = now_iso, attempts = 0\<rparr>]\<rparr>;
          s2 = saveQueue JSON_stringify s1;
          s3 = (if onLine then processQueue JSON_stringify onLine s2 else s2)
      in (new_id, s3))"

definition getQueueLength :: "OfflineQueue \<Rightarrow> nat" where
  "getQueueLength s = length (queue s)"

definition clearQueue :: "(QueuedOperation list \<Rightarrow> string) \<Rightarrow> OfflineQueue \<Rightarrow> OfflineQueue" where
  "clearQueue JSON_stringify s = saveQueue JSON_stringify (s\<lparr>queue := []\<rparr>)"

text \<open>
  Example values: a serialiser that prints the operation tags between brackets, a queued
  operation, a store, and queue objects at rest and in the middle of a pass.
\<close>

definition ids_text :: "QueuedOperation list \<Rightarrow> string" where
  "ids_text q = ''['' @ concat (map (\<lambda>x. operation x @ '';'') q) @ '']''"

definition queued :: "string \<Rightarrow> nat \<Rightarrow> QueuedOperation" where
  "queued tag n = \<lparr>id_q = 1, operation = tag, data = JNull, metadata = JObject [],
     timestamp = ''2024-01-01T00:00:00.000Z'', attempts = n\<rparr>"

definition store :: "string option \<Rightarrow> localStorage" where
  "store v = \<lparr>stored = v, getItem_throws = False, setItem_throws = False\<rparr>"

definition idle :: "QueuedOperation list \<Rightarrow> OfflineQueue" where
  "idle q = \<lparr>queue = q, processing = False, storage = store None, console = []\<rparr>"

definition busy :: "QueuedOperation list \<Rightarrow> OfflineQueue" where
  "busy q = \<lparr>queue = q, processing = True, storage = store None, console = []\<rparr>"

section \<open>Notions used in the proofs\<close>

text \<open>The \<open>count\<close> field of an hour, 0 when the hour has no entry.\<close>

definition cnt :: "hourlyStats \<Rightarrow> nat \<Rightarrow> nat" where
  "cnt stats h = (case stats h of None \<Rightarrow> 0 | Some e \<Rightarrow> fst e)"

definition starts_in :: "(int \<Rightarrow> int) \<Rightarrow> nat \<Rightarrow> FocusSession \<Rightarrow> bool" where
  "starts_in tz h s = (case started_at s of None \<Rightarrow> False | Some t \<Rightarrow> getHours tz t = h)"

text \<open>The entries of the hours below \<open>n\<close>, and what the scan has found after them.\<close>

definition entries_upto :: "nat \<Rightarrow> hourlyStats \<Rightarrow> (nat \<times> nat \<times> int) list" where
  "entries_upto n stats =
     concat (map (\<lambda>h. case stats h of None \<Rightarrow> [] | Some e \<Rightarrow> [(h, e)]) [0..<n])"

definition best_upto :: "nat \<Rightarrow> hourlyStats \<Rightarrow> nat option \<times> nat \<Rightarrow> bool" where
  "best_upto n stats b =
     ((fst b = None \<and> snd b = 0 \<and> (\<forall>h<n. cnt stats h = 0)) \<or>
      (\<exists>h<n. fst b = Some h \<and> cnt stats h = snd b \<and> 0 < snd b \<and>
         (\<forall>h'<n. cnt stats h' \<le> snd b) \<and> (\<forall>h'<h. cnt stats h' < snd b)))"

text \<open>The items that \<open>"Processing queued operation:"\<close> lines of the console show.\<close>

definition processing_logs :: "console_entry list \<Rightarrow> QueuedOperation list" where
  "processing_logs c = concat (map (\<lambda>e. case e of Console_log _ x \<Rightarrow> [x] | _ \<Rightarrow> []) c)"

text \<open>The keys the tasks are ranked by, and the priorities of the table.\<close>

definition weightOf :: "Task \<Rightarrow> int" where
  "weightOf t = (case priorityWeight (priority t) of Some (Number w) \<Rightarrow> w | _ \<Rightarrow> 0)"

definition dueOf :: "Task \<Rightarrow> int" where
  "dueOf t = or0 (due_date t)"

definition known_priority :: "Task \<Rightarrow> bool" where
  "known_priority t = (priority t = ''high'' \<or> priority t = ''medium'' \<or> priority t = ''low'')"

text \<open>The tasks of the recommendations, in the order returned.\<close>

definition prioritized ::
  "((Task \<Rightarrow> Task \<Rightarrow> int) \<Rightarrow> Task list \<Rightarrow> Task list) \<Rightarrow> Task list \<Rightarrow> Task list" where
  "prioritized array_sort tasks =
     map task (recommendations (generateSmartTaskRecommendations array_sort tasks))"

text \<open>Example values: a task due on 2024-06-01, and a 90-minute session one day old.\<close>

definition task_high_due_june :: Task where
  "task_high_due_june = \<lparr>title = ''D'', status = ''todo'', priority = ''high'',
     category = ''daily'', due_date = Some 1717200000000, completed_at = None,
     time_estimate = None\<rparr>"

definition recent_session :: FocusSession where
  "recent_session = \<lparr>duration = Some 90, started_at = Some 518400000, completed = True\<rparr>"

definition task_estimated :: "int \<Rightarrow> Task" where
  "task_estimated minutes = \<lparr>title = ''E'', status = ''todo'', priority = ''low'',
     category = ''project'', due_date = None, completed_at = None,
     time_estimate = Some minutes\<rparr>"

text \<open>Example values: a queue whose storage is full, and the operation \<open>add\<close> builds.\<close>

definition quota_full :: OfflineQueue where
  "quota_full = \<lparr>queue = [], processing = False,
     storage = \<lparr>stored = None, getItem_throws = False, setItem_throws = True\<rparr>,
     console = []\<rparr>"

definition new_operation :: "rat \<Rightarrow> string \<Rightarrow> string \<Rightarrow> json \<Rightarrow> json \<Rightarrow> QueuedOperation" where
  "new_operation new_id now_iso tag payload meta =
     \<lparr>id_q = new_id, operation = tag, data = payload, metadata = meta,
      timestamp = now_iso, attempts = 0\<rparr>"

text \<open>
  Notions for the sort: a list in ascending order of a comparison function, the relation
  "not less" inside a set, the pending tasks, and task lists in which no priority has
  both tasks with and tasks without a due date.
\<close>

definition ascending :: "('a \<Rightarrow> 'a \<Rightarrow> int) \<Rightarrow> 'a list \<Rightarrow> bool" where
  "ascending cmp xs = sorted_wrt (\<lambda>a b. 0 \<le> cmp b a) xs"

definition not_less_in :: "('a \<Rightarrow> 'a \<Rightarrow> int) \<Rightarrow> 'a set \<Rightarrow> 'a \<Rightarrow> 'a \<Rightarrow> bool" where
  "not_less_in cmp S a b = (a \<in> S \<and> b \<in> S \<and> 0 \<le> cmp b a)"

definition pending :: "Task list \<Rightarrow> Task list" where
  "pending tasks = filter (\<lambda>t. status t \<noteq> ''completed'') tasks"

definition uniform_due :: "Task list \<Rightarrow> bool" where
  "uniform_due ts =
     (\<forall>a \<in> set ts. \<forall>b \<in> set ts.
        priority a = priority b \<longrightarrow> (due_date a = None \<longleftrightarrow> due_date b = None))"

text \<open>Example values: two tasks of a priority outside the table, a task by category.\<close>

definition task_urgent_june :: Task where
  "task_urgent_june = \<lparr>title = ''U'', status = ''todo'', priority = ''urgent'',
     category = ''daily'', due_date = Some 1717200000000, completed_at = None,
     time_estimate = None\<rparr>"

definition task_urgent :: Task where
  "task_urgent = \<lparr>title = ''V'', status = ''todo'', priority = ''urgent'',
     category = ''daily'', due_date = Some 1704067200000, completed_at = None,
     time_estimate = None\<rparr>"

definition uncategorized :: "string \<Rightarrow> Task" where
  "uncategorized c = \<lparr>title = ''F'', status = ''todo'', priority = ''low'',
     category = c, due_date = None, completed_at = None, time_estimate = None\<rparr>"

definition utc :: "int \<Rightarrow> int" where
  "utc t = 0"

section \<open>Properties of \<open>detectProductivityPatterns\<close>\<close>

lemma record_session_no_start:
  "started_at s = None \<Longrightarrow> record_session tz stats s = stats"
  by (simp add: record_session_def)

lemma foldl_record_session_no_start:
  "\<forall>s \<in> set ss. started_at s = None \<Longrightarrow> foldl (record_session tz) stats ss = stats"
  by (induction ss arbitrary: stats) (simp_all add: record_session_no_start)

lemma entries_empty: "entries Map.empty = []"
  by (simp add: entries_def)


lemma getHours_lt_24: "getHours tz t < 24"
  by (simp add: getHours_def nat_less_iff)

lemma cnt_record_session:
  "cnt (record_session tz stats s) h = cnt stats h + (if starts_in tz h s then 1 else 0)"
  by (auto simp: cnt_def record_session_def starts_in_def Let_def split: option.splits)

lemma cnt_foldl_record_session:
  "cnt (foldl (record_session tz) stats ss) h = cnt stats h + length (filter (starts_in tz h) ss)"
  by (induction ss arbitrary: stats) (simp_all add: cnt_record_session)

lemma cnt_hourlyStats:
  "cnt (foldl (record_session tz) Map.empty (filter completed ss)) h = hourCount tz ss h"
proof -
  have "cnt (foldl (record_session tz) Map.empty (filter completed ss)) h =
        length (filter (starts_in tz h) (filter completed ss))"
    unfolding cnt_foldl_record_session by (simp add: cnt_def)
  also have "\<dots> = hourCount tz ss h"
    by (simp add: hourCount_def starts_in_def conj_commute)
  finally show ?thesis .
qed

lemma hourCount_ge_24: "24 \<le> h \<Longrightarrow> hourCount tz ss h = 0"
proof -
  assume h: "24 \<le> h"
  have "getHours tz t \<noteq> h" for t
    using getHours_lt_24 [of tz t] h by simp
  then show ?thesis
    by (auto simp: hourCount_def filter_empty_conv split: option.splits)
qed

lemma entries_upto_Suc:
  "entries_upto (Suc n) stats =
     entries_upto n stats @ (case stats n of None \<Rightarrow> [] | Some e \<Rightarrow> [(n, e)])"
  by (simp add: entries_upto_def)

lemma entries_eq: "entries stats = entries_upto 24 stats"
  by (simp add: entries_def entries_upto_def)

text \<open>
  The scan over the entries keeps the smallest hour among those of greatest count: the
  entries come in ascending order of the hour and a later one wins only when strictly
  greater.
\<close>

lemma best_upto_foldl: "best_upto n stats (foldl pick_best (None, 0) (entries_upto n stats))"
proof (induction n)
  case 0
  show ?case by (simp add: entries_upto_def best_upto_def)
next
  case (Suc n)
  obtain bh bc where b: "foldl pick_best (None, 0) (entries_upto n stats) = (bh, bc)"
    by (cases "foldl pick_best (None, 0) (entries_upto n stats)")
  with Suc have IH: "best_upto n stats (bh, bc)" by simp
  show ?case
  proof (cases "stats n")
    case None
    then have c0: "cnt stats n = 0" by (simp add: cnt_def)
    have "best_upto (Suc n) stats (bh, bc)"
      using IH c0 unfolding best_upto_def
      by (auto simp: less_Suc_eq)
    then show ?thesis by (simp add: entries_upto_Suc None b)
  next
    case (Some e)
    then have ce: "cnt stats n = fst e" by (simp add: cnt_def)
    have step: "foldl pick_best (None, 0) (entries_upto (Suc n) stats) = pick_best (bh, bc) (n, e)"
      by (simp add: entries_upto_Suc Some b)
    show ?thesis
    proof (cases "fst e > bc")
      case True
      have "best_upto (Suc n) stats (Some n, fst e)"
        using IH ce True unfolding best_upto_def
        by (auto simp: less_Suc_eq)
      moreover have "pick_best (bh, bc) (n, e) = (Some n, fst e)"
        using True by (simp add: pick_best_def)
      ultimately show ?thesis using step by simp
    next
      case False
      have "best_upto (Suc n) stats (bh, bc)"
        using IH ce False unfolding best_upto_def
        by (auto simp: less_Suc_eq)
      moreover have "pick_best (bh, bc) (n, e) = (bh, bc)"
        using False by (simp add: pick_best_def)
      ultimately show ?thesis using step by simp
    qed
  qed
qed

lemma detectProductivityPatterns_enough:
  "5 \<le> length (filter completed ss) \<Longrightarrow>
   detectProductivityPatterns tz ss =
     (let best = foldl pick_best (None, 0)
                   (entries (foldl (record_session tz) Map.empty (filter completed ss)))
      in Identified (fst best) (timeLabel (fst best)) (snd best) (pattern_message (fst best)))"
  by (simp add: detectProductivityPatterns_def Let_def)

text \<open>
  C10. Completed sessions without a started-at timestamp count toward the threshold of
  five and are left out of the hour buckets: whenever at least five sessions are completed
  and none of the completed ones has a started-at, the result is the pattern
  "identified" with a null peak hour, no session in the peak hour and the label
  "morning".
\<close>

theorem detectProductivityPatterns_without_start:
  assumes "5 \<le> length (filter completed ss)"
    and "\<forall>s \<in> set ss. completed s \<longrightarrow> started_at s = None"
  shows "detectProductivityPatterns tz ss =
           Identified None ''morning'' 0
             ''You're most productive in the morning (around null:00). Schedule important tasks during this time.''
         \<and> pattern (detectProductivityPatterns tz ss) = ''identified''"
proof -
  have "\<forall>s \<in> set (filter completed ss). started_at s = None"
    using assms(2) by simp
  then have "foldl (record_session tz) Map.empty (filter completed ss) = Map.empty"
    by (rule foldl_record_session_no_start)
  then have "detectProductivityPatterns tz ss =
      Identified None (timeLabel None) 0 (pattern_message None)"
    using assms(1) by (simp add: detectProductivityPatterns_enough entries_empty)
  then show ?thesis
    by (simp add: timeLabel_def pattern_message_def pattern_def)
qed

theorem detectProductivityPatterns_without_start_witness:
  "detectProductivityPatterns utc (replicate 5 unstarted_session) =
           Identified None ''morning'' 0
             ''You're most productive in the morning (around null:00). Schedule important tasks during this time.''
   \<and> pattern (detectProductivityPatterns utc (replicate 5 unstarted_session)) = ''identified''"
proof -
  have a: "5 \<le> length (filter completed (replicate 5 unstarted_session))"
    by (simp add: unstarted_session_def)
  have b: "\<forall>s \<in> set (replicate 5 unstarted_session). completed s \<longrightarrow> started_at s = None"
    by (simp add: unstarted_session_def)
  show ?thesis
    using detectProductivityPatterns_without_start [OF a b, of utc] by blast
qed

text \<open>
  C4, as the specification states it, fails: with completed sessions starting at 14h, 14h,
  9h, 9h and 20h the hours 14 and 9 tie with two sessions each, 14 is seen first, and the
  peak hour returned is 9.
\<close>

theorem detectProductivityPatterns_first_seen_counterexample:
  "peakHour (detectProductivityPatterns utc tie_sessions) = Some 9
   \<and> firstSeenPeak utc tie_sessions = Some 14
   \<and> hourCount utc tie_sessions 9 = hourCount utc tie_sessions 14"
  by code_simp

text \<open>
  C4, amended. The result is "insufficient data" exactly when fewer than five sessions
  are completed. Otherwise, when some completed session has a started-at, the peak hour
  is an hour of the day (0 to 23) whose count of completed sessions is the greatest, the
  smallest such hour when several tie, with that count as the sessions in the peak hour,
  and the label is morning below 12, afternoon below 17 and evening from 17 on.
\<close>

theorem detectProductivityPatterns_peak_hour:
  "((\<exists>m. detectProductivityPatterns tz ss = InsufficientData m)
      \<longleftrightarrow> length (filter completed ss) < 5)
   \<and> (5 \<le> length (filter completed ss)
        \<and> (\<exists>s \<in> set ss. completed s \<and> started_at s \<noteq> None) \<longrightarrow>
      (\<exists>h<24. detectProductivityPatterns tz ss =
                 Identified (Some h)
                   (if h < 12 then ''morning'' else if h < 17 then ''afternoon'' else ''evening'')
                   (hourCount tz ss h) (pattern_message (Some h))
               \<and> (\<forall>h'. hourCount tz ss h' \<le> hourCount tz ss h)
               \<and> (\<forall>h'<h. hourCount tz ss h' < hourCount tz ss h)))"
proof (intro conjI impI)
  show "(\<exists>m. detectProductivityPatterns tz ss = InsufficientData m)
          \<longleftrightarrow> length (filter completed ss) < 5"
    by (simp add: detectProductivityPatterns_def Let_def)
next
  assume asm: "5 \<le> length (filter completed ss)
                 \<and> (\<exists>s \<in> set ss. completed s \<and> started_at s \<noteq> None)"
  define stats where "stats = foldl (record_session tz) Map.empty (filter completed ss)"
  define b where "b = foldl pick_best (None, 0) (entries stats)"
  have c: "cnt stats h = hourCount tz ss h" for h
    by (simp add: stats_def cnt_hourlyStats)
  have B: "best_upto 24 stats b"
    unfolding b_def entries_eq by (rule best_upto_foldl)
  from asm obtain s t where s: "s \<in> set ss" "completed s" "started_at s = Some t"
    by auto
  then have "s \<in> set (filter (\<lambda>s. completed s \<and>
       (case started_at s of None \<Rightarrow> False | Some t' \<Rightarrow> getHours tz t' = getHours tz t)) ss)"
    by simp
  then have pos: "0 < hourCount tz ss (getHours tz t)"
    unfolding hourCount_def by (metis length_pos_if_in_set)
  have "\<not> (\<forall>h<24. cnt stats h = 0)"
    using pos getHours_lt_24 [of tz t] c by (metis less_numeral_extra(3))
  with B obtain h where h: "h < 24" "fst b = Some h" "cnt stats h = snd b"
      "\<forall>h'<24. cnt stats h' \<le> snd b" "\<forall>h'<h. cnt stats h' < snd b"
    unfolding best_upto_def by blast
  have all: "hourCount tz ss h' \<le> hourCount tz ss h" for h'
  proof (cases "h' < 24")
    case True
    then show ?thesis using h c by metis
  next
    case False
    then show ?thesis by (simp add: hourCount_ge_24)
  qed
  have "detectProductivityPatterns tz ss =
          Identified (fst b) (timeLabel (fst b)) (snd b) (pattern_message (fst b))"
    using asm by (simp add: detectProductivityPatterns_enough Let_def b_def stats_def)
  then have "detectProductivityPatterns tz ss =
               Identified (Some h)
                 (if h < 12 then ''morning'' else if h < 17 then ''afternoon'' else ''evening'')
                 (hourCount tz ss h) (pattern_message (Some h))"
    using h c by (simp add: timeLabel_def)
  moreover have "\<forall>h'<h. hourCount tz ss h' < hourCount tz ss h"
    using h c by simp
  ultimately show "\<exists>h<24. detectProductivityPatterns tz ss =
                 Identified (Some h)
                   (if h < 12 then ''morning'' else if h < 17 then ''afternoon'' else ''evening'')
                   (hourCount tz ss h) (pattern_message (Some h))
               \<and> (\<forall>h'. hourCount tz ss h' \<le> hourCount tz ss h)
               \<and> (\<forall>h'<h. hourCount tz ss h' < hourCount tz ss h)"
    using h(1) all by blast
qed


theorem detectProductivityPatterns_peak_hour_witness:
  "detectProductivityPatterns utc tie_sessions =
     Identified (Some 9) ''morning'' (hourCount utc tie_sessions 9) (pattern_message (Some 9))
   \<and> hourCount utc tie_sessions 14 \<le> hourCount utc tie_sessions 9
   \<and> hourCount utc tie_sessions 20 \<le> hourCount utc tie_sessions 9
   \<and> pattern (detectProductivityPatterns utc [session_at 9]) = ''insufficient_data''"
proof -
  have "length (filter completed [session_at 9]) < 5"
    by simp
  with detectProductivityPatterns_peak_hour [of utc "[session_at 9]"]
  obtain m where "detectProductivityPatterns utc [session_at 9] = InsufficientData m"
    by blast
  then have few: "pattern (detectProductivityPatterns utc [session_at 9]) = ''insufficient_data''"
    by (simp add: pattern_def)
  have a: "5 \<le> length (filter completed tie_sessions)"
    by (simp add: tie_sessions_def session_at_def)
  have b: "\<exists>s \<in> set tie_sessions. completed s \<and> started_at s \<noteq> None"
    by (simp add: tie_sessions_def session_at_def)
  from a b detectProductivityPatterns_peak_hour [of utc tie_sessions]
  obtain h where h: "detectProductivityPatterns utc tie_sessions =
                 Identified (Some h)
                   (if h < 12 then ''morning'' else if h < 17 then ''afternoon'' else ''evening'')
                   (hourCount utc tie_sessions h) (pattern_message (Some h))"
      and top: "\<forall>h'. hourCount utc tie_sessions h' \<le> hourCount utc tie_sessions h"
    by blast
  have "peakHour (detectProductivityPatterns utc tie_sessions) = Some 9"
    by code_simp
  with h have "h = 9" by simp
  with h top few show ?thesis by simp
qed


section \<open>Properties of \<open>analyzeBurnoutRisk\<close>\<close>

lemma foldl_plus_sum_list:
  "foldl (\<lambda>sum x. sum + f x) a xs = a + sum_list (map f xs)"
  by (induction xs arbitrary: a) (simp_all add: add.assoc)

lemma totalMinutes_sum:
  "totalMinutes now ss =
     sum_list (map (\<lambda>s. or0 (duration s))
       (filter (\<lambda>s. case started_at s of None \<Rightarrow> False | Some t \<Rightarrow> now - 604800000 < t) ss))"
  by (simp add: totalMinutes_def recentSessions_def foldl_plus_sum_list)

lemma hoursPerDay_eq:
  "hoursPerDay (analyzeBurnoutRisk now ss tasks) = of_int (totalMinutes now ss) / 7 / 60"
  by (simp add: analyzeBurnoutRisk_def Let_def)

lemma riskLevel_high:
  "riskLevel (analyzeBurnoutRisk now ss tasks) = ''high''
     \<longleftrightarrow> 10 < hoursPerDay (analyzeBurnoutRisk now ss tasks)"
  by (simp add: analyzeBurnoutRisk_def Let_def)

lemma riskLevel_medium:
  "riskLevel (analyzeBurnoutRisk now ss tasks) = ''medium''
     \<longleftrightarrow> 8 < hoursPerDay (analyzeBurnoutRisk now ss tasks)
         \<and> hoursPerDay (analyzeBurnoutRisk now ss tasks) \<le> 10"
  by (simp add: analyzeBurnoutRisk_def Let_def)

lemma riskLevel_low:
  "riskLevel (analyzeBurnoutRisk now ss tasks) = ''low''
     \<longleftrightarrow> hoursPerDay (analyzeBurnoutRisk now ss tasks) \<le> 8"
  by (auto simp add: analyzeBurnoutRisk_def Let_def)

lemma sum_list_const_90:
  "\<forall>s \<in> set xs. or0 (duration s) = 90 \<Longrightarrow>
   sum_list (map (\<lambda>s. or0 (duration s)) xs) = 90 * int (length xs)"
  by (induction xs) simp_all

lemma ten_sessions_low:
  assumes "length ss = 10"
    and "\<forall>s \<in> set ss. duration s = Some 90 \<and>
           (\<exists>t. started_at s = Some t \<and> now - 2 * 24 * 60 * 60 * 1000 \<le> t \<and> t \<le> now)"
  shows "riskLevel (analyzeBurnoutRisk now ss tasks) = ''low''"
proof -
  have "filter (\<lambda>s. case started_at s of None \<Rightarrow> False | Some t \<Rightarrow> now - 604800000 < t) ss = ss"
    using assms(2) by (auto simp: filter_id_conv)
  moreover have "\<forall>s \<in> set ss. or0 (duration s) = 90"
    using assms(2) by (simp add: or0_def)
  ultimately have "totalMinutes now ss = 900"
    using assms(1) by (simp add: totalMinutes_sum sum_list_const_90)
  then show ?thesis by (simp add: riskLevel_low hoursPerDay_eq)
qed

text \<open>
  C5, as the specification states it, fails: a session of 5000 minutes started exactly
  seven days before now lies in the trailing seven days with the boundary included, which
  would make 11.9 hours a day and the level "high"; the code leaves the session out and
  answers "low".
\<close>

theorem analyzeBurnoutRisk_boundary_counterexample:
  "riskLevel (analyzeBurnoutRisk 604800000 [boundary_session] ([] :: Task list)) = ''low''
   \<and> trailingWeekRisk 604800000 [boundary_session] = ''high''"
  by (simp add: analyzeBurnoutRisk_def totalMinutes_def recentSessions_def boundary_session_def
      trailingWeekRisk_def inTrailingWeek_def or0_def Let_def)

text \<open>
  C5, amended. The total is the sum of the durations of exactly those sessions whose
  started-at is strictly later than now - 7 * 24h (a session started at that very instant
  is left out, and nothing bounds started-at from above); hours per day is the total
  divided by 7 and by 60; the level is high when hours per day exceed 10, medium when
  they exceed 8, and low otherwise. In particular 10 sessions of 90 minutes each, all
  started within the last two days, give the level "low".
\<close>

theorem analyzeBurnoutRisk_window:
  "totalMinutes now ss =
     sum_list (map (\<lambda>s. or0 (duration s))
       (filter (\<lambda>s. case started_at s of
                       None \<Rightarrow> False
                     | Some t \<Rightarrow> now - 7 * 24 * 60 * 60 * 1000 < t) ss))
   \<and> hoursPerDay (analyzeBurnoutRisk now ss tasks) = of_int (totalMinutes now ss) / 7 / 60
   \<and> (riskLevel (analyzeBurnoutRisk now ss tasks) = ''high''
        \<longleftrightarrow> 10 < hoursPerDay (analyzeBurnoutRisk now ss tasks))
   \<and> (riskLevel (analyzeBurnoutRisk now ss tasks) = ''medium''
        \<longleftrightarrow> 8 < hoursPerDay (analyzeBurnoutRisk now ss tasks)
            \<and> hoursPerDay (analyzeBurnoutRisk now ss tasks) \<le> 10)
   \<and> (riskLevel (analyzeBurnoutRisk now ss tasks) = ''low''
        \<longleftrightarrow> hoursPerDay (analyzeBurnoutRisk now ss tasks) \<le> 8)
   \<and> (length ss = 10
        \<and> (\<forall>s \<in> set ss. duration s = Some 90 \<and>
              (\<exists>t. started_at s = Some t \<and> now - 2 * 24 * 60 * 60 * 1000 \<le> t \<and> t \<le> now))
        \<longrightarrow> riskLevel (analyzeBurnoutRisk now ss tasks) = ''low'')"
proof (intro conjI impI)
  show "totalMinutes now ss =
     sum_list (map (\<lambda>s. or0 (duration s))
       (filter (\<lambda>s. case started_at s of
                       None \<Rightarrow> False
                     | Some t \<Rightarrow> now - 7 * 24 * 60 * 60 * 1000 < t) ss))"
    by (simp add: totalMinutes_sum cong: option.case_cong)
  show "hoursPerDay (analyzeBurnoutRisk now ss tasks) = of_int (totalMinutes now ss) / 7 / 60"
    by (rule hoursPerDay_eq)
  show "riskLevel (analyzeBurnoutRisk now ss tasks) = ''high''
        \<longleftrightarrow> 10 < hoursPerDay (analyzeBurnoutRisk now ss tasks)"
    by (rule riskLevel_high)
  show "riskLevel (analyzeBurnoutRisk now ss tasks) = ''medium''
        \<longleftrightarrow> 8 < hoursPerDay (analyzeBurnoutRisk now ss tasks)
            \<and> hoursPerDay (analyzeBurnoutRisk now ss tasks) \<le> 10"
    by (rule riskLevel_medium)
  show "riskLevel (analyzeBurnoutRisk now ss tasks) = ''low''
        \<longleftrightarrow> hoursPerDay (analyzeBurnoutRisk now ss tasks) \<le> 8"
    by (rule riskLevel_low)
next
  assume "length ss = 10
        \<and> (\<forall>s \<in> set ss. duration s = Some 90 \<and>
              (\<exists>t. started_at s = Some t \<and> now - 2 * 24 * 60 * 60 * 1000 \<le> t \<and> t \<le> now))"
  then show "riskLevel (analyzeBurnoutRisk now ss tasks) = ''low''"
    using ten_sessions_low [of ss now tasks] by blast
qed

theorem analyzeBurnoutRisk_window_witness:
  "riskLevel (analyzeBurnoutRisk 604800000 (replicate 10 recent_session) ([] :: Task list)) = ''low''
   \<and> hoursPerDay (analyzeBurnoutRisk 604800000 (replicate 10 recent_session) ([] :: Task list))
       = of_int (totalMinutes 604800000 (replicate 10 recent_session)) / 7 / 60"
proof -
  have a: "length (replicate 10 recent_session) = 10"
    by simp
  have b: "\<forall>s \<in> set (replicate 10 recent_session). duration s = Some 90 \<and>
              (\<exists>t. started_at s = Some t \<and> 604800000 - 2 * 24 * 60 * 60 * 1000 \<le> t
                    \<and> t \<le> 604800000)"
    by (simp add: recent_session_def)
  show ?thesis
    using a b analyzeBurnoutRisk_window
                [of 604800000 "replicate 10 recent_session" "[] :: Task list"]
    by blast
qed

section \<open>Properties of \<open>estimateTaskDuration\<close>\<close>

lemma estimate_own:
  "time_estimate t = Some n \<Longrightarrow> n \<noteq> 0 \<Longrightarrow> estimateTaskDuration t hs = Number n"
  by (simp add: estimateTaskDuration_def truthy_def or0_def)

lemma defaults_own:
  "c \<notin> set Object_prototype \<Longrightarrow>
   or_else (defaults c) (Number 30) =
     Number (if c = ''daily'' then 15 else if c = ''weekly'' then 30
             else if c = ''project'' then 60 else if c = ''someday'' then 45 else 30)"
  by (simp add: defaults_def property_def or_else_def)

lemma estimate_default:
  "\<not> truthy (time_estimate t) \<Longrightarrow> similar t hs = [] \<Longrightarrow> category t \<notin> set Object_prototype \<Longrightarrow>
   estimateTaskDuration t hs =
     Number (if category t = ''daily'' then 15 else if category t = ''weekly'' then 30
      else if category t = ''project'' then 60 else if category t = ''someday'' then 45 else 30)"
  by (simp add: estimateTaskDuration_def defaults_own)

lemma Math_round_bounds:
  "x - 1 / 2 < of_int (Math_round x) \<and> of_int (Math_round x) \<le> x + 1 / 2"
  unfolding Math_round_def by linarith

lemma estimate_average:
  "\<not> truthy (time_estimate t) \<Longrightarrow> similar t hs \<noteq> [] \<Longrightarrow>
   estimateTaskDuration t hs =
     Number (Math_round (of_int (sum_list (map (\<lambda>h. or0 (time_estimate h)) (similar t hs)))
                  / of_int (int (length (similar t hs)))))"
  by (simp add: estimateTaskDuration_def foldl_plus_sum_list Let_def)

text \<open>
  C7, as the specification states it, fails: for a daily task without an estimate and
  two completed daily tasks estimated at 10 and 15 minutes the average is 12.5 and the
  result is 13; a task whose own estimate is 0 does not get 0 back but the default of its
  category; and for the unrecognized category "constructor" the result is not 30 but
  the member of that name that the object \<open>defaults\<close> inherits.
\<close>

theorem estimateTaskDuration_average_counterexample:
  "estimateTaskDuration task_low [done_daily 10, done_daily 15] = Number 13
   \<and> averageEstimate task_low [done_daily 10, done_daily 15] = 25 / 2
   \<and> estimateTaskDuration (task_estimated 0) [] = Number 60
   \<and> estimateTaskDuration (uncategorized ''constructor'') [] = Inherited ''constructor''"
  by (simp add: estimateTaskDuration_def similar_def task_low_def done_daily_def truthy_def
        or0_def Math_round_def averageEstimate_def task_estimated_def defaults_def Let_def
        property_def or_else_def uncategorized_def Object_prototype_def)

text \<open>
  C7, amended. If the task carries its own time estimate and it is not 0, the result is
  that estimate, unchanged (an estimate of 45 gives 45 whatever the history). Otherwise
  the result is the average, rounded to the nearest integer with a half rounded up, of the
  time estimates of the completed historical tasks of the same category that have a
  non-zero estimate; and when there is no such task it is the default of the category:
  daily 15, weekly 30, project 60, someday 45, and 30 for any other category that is not
  the name of a member objects inherit from \<open>Object.prototype\<close>.
\<close>

theorem estimateTaskDuration_cases:
  "(time_estimate t = Some n \<and> n \<noteq> 0 \<longrightarrow> estimateTaskDuration t hs = Number n)
   \<and> (time_estimate t = Some 45 \<longrightarrow> estimateTaskDuration t hs = Number 45)
   \<and> (\<not> truthy (time_estimate t) \<and> similar t hs = [] \<and> category t \<notin> set Object_prototype \<longrightarrow>
        estimateTaskDuration t hs =
          Number (if category t = ''daily'' then 15 else if category t = ''weekly'' then 30
           else if category t = ''project'' then 60 else if category t = ''someday'' then 45
           else 30))
   \<and> (\<not> truthy (time_estimate t) \<and> similar t hs \<noteq> [] \<longrightarrow>
        estimateTaskDuration t hs =
          Number (Math_round (of_int (sum_list (map (\<lambda>h. or0 (time_estimate h)) (similar t hs)))
                       / of_int (int (length (similar t hs)))))
        \<and> of_int (sum_list (map (\<lambda>h. or0 (time_estimate h)) (similar t hs)))
             / of_int (int (length (similar t hs))) - 1 / 2
            < (of_int (Math_round (of_int (sum_list (map (\<lambda>h. or0 (time_estimate h)) (similar t hs)))
                       / of_int (int (length (similar t hs))))) :: rat)
        \<and> (of_int (Math_round (of_int (sum_list (map (\<lambda>h. or0 (time_estimate h)) (similar t hs)))
                       / of_int (int (length (similar t hs))))) :: rat)
            \<le> of_int (sum_list (map (\<lambda>h. or0 (time_estimate h)) (similar t hs)))
                 / of_int (int (length (similar t hs))) + 1 / 2)"
  using estimate_own [of t n hs] estimate_own [of t 45 hs] estimate_default [of t hs]
    estimate_average [of t hs]
    Math_round_bounds [of "of_int (sum_list (map (\<lambda>h. or0 (time_estimate h)) (similar t hs)))
                             / of_int (int (length (similar t hs)))"]
  by simp

theorem estimateTaskDuration_cases_witness:
  "estimateTaskDuration (task_estimated 45) [done_daily 10] = Number 45
   \<and> estimateTaskDuration task_low [] = Number 15
   \<and> estimateTaskDuration (uncategorized ''errands'') [] = Number 30
   \<and> estimateTaskDuration task_low [done_daily 10, done_daily 15]
       = Number (Math_round (of_int (sum_list (map (\<lambda>h. or0 (time_estimate h))
                                (similar task_low [done_daily 10, done_daily 15])))
                      / of_int (int (length (similar task_low [done_daily 10, done_daily 15])))))"
proof -
  have a: "time_estimate (task_estimated 45) = Some 45"
    by (simp add: task_estimated_def)
  have b: "\<not> truthy (time_estimate task_low) \<and> similar task_low [] = []
             \<and> category task_low \<notin> set Object_prototype"
    by (simp add: task_low_def truthy_def similar_def Object_prototype_def)
  have c: "\<not> truthy (time_estimate task_low)
             \<and> similar task_low [done_daily 10, done_daily 15] \<noteq> []"
    by (simp add: task_low_def truthy_def similar_def done_daily_def)
  have d: "category task_low = ''daily''"
    by (simp add: task_low_def)
  have e: "\<not> truthy (time_estimate (uncategorized ''errands''))
             \<and> similar (uncategorized ''errands'') [] = []
             \<and> category (uncategorized ''errands'') \<notin> set Object_prototype"
    by (simp add: uncategorized_def truthy_def similar_def Object_prototype_def)
  have f: "category (uncategorized ''errands'') = ''errands''"
    by (simp add: uncategorized_def)
  have 1: "estimateTaskDuration (task_estimated 45) [done_daily 10] = Number 45"
    using a estimateTaskDuration_cases [of "task_estimated 45" 45 "[done_daily 10]"] by blast
  have 2: "estimateTaskDuration task_low [] = Number 15"
    using b d estimateTaskDuration_cases [of task_low 0 "[]"] by simp
  have 3: "estimateTaskDuration (uncategorized ''errands'') [] = Number 30"
    using e f estimateTaskDuration_cases [of "uncategorized ''errands''" 0 "[]"] by simp
  have 4: "estimateTaskDuration task_low [done_daily 10, done_daily 15]
       = Number (Math_round (of_int (sum_list (map (\<lambda>h. or0 (time_estimate h))
                                (similar task_low [done_daily 10, done_daily 15])))
                      / of_int (int (length (similar task_low [done_daily 10, done_daily 15])))))"
    using c estimateTaskDuration_cases [of task_low 0 "[done_daily 10, done_daily 15]"] by blast
  show ?thesis using 1 2 3 4 by blast
qed

section \<open>Properties of the streak\<close>

lemma new_Set_foldl:
  "set (foldl (\<lambda>seen x. if x \<in> set seen then seen else seen @ [x]) acc xs) = set acc \<union> set xs
   \<and> (distinct acc \<longrightarrow>
        distinct (foldl (\<lambda>seen x. if x \<in> set seen then seen else seen @ [x]) acc xs))"
  by (induction xs arbitrary: acc) auto

lemma set_new_Set: "set (new_Set xs) = set xs"
  by (simp add: new_Set_def new_Set_foldl)

lemma distinct_new_Set: "distinct (new_Set xs)"
  using new_Set_foldl [of "[]" xs] by (simp add: new_Set_def)

lemma sort_new_Set: "sort (new_Set xs) = sorted_list_of_set (set xs)"
  by (metis distinct_new_Set set_new_Set sorted_list_of_set_sort_remdups distinct_remdups_id)

lemma set_completedDates:
  "set (completedDates dayKey tasks) =
     (\<lambda>t. dayKey (the (completed_at t))) ` {t \<in> set tasks. completed_at t \<noteq> None}"
  by (simp add: completedDates_def)

text \<open>
  C8. The streak of the empty task list is 0, and the streak of a task list is the streak
  of each of its permutations: the dates are deduplicated and sorted before the walk, so
  only the set of completion dates matters.
\<close>

theorem streak_permutation_invariant:
  "streak dayKey prevDay today [] = 0
   \<and> (mset tasks = mset tasks' \<longrightarrow>
        streak dayKey prevDay today tasks = streak dayKey prevDay today tasks')"
proof
  show "streak dayKey prevDay today [] = 0"
    by (simp add: streak_def uniqueDates_def completedDates_def new_Set_def)
next
  show "mset tasks = mset tasks' \<longrightarrow>
          streak dayKey prevDay today tasks = streak dayKey prevDay today tasks'"
  proof
    assume "mset tasks = mset tasks'"
    then have "set tasks = set tasks'"
      by (rule mset_eq_setD)
    then have "set (completedDates dayKey tasks) = set (completedDates dayKey tasks')"
      by (simp add: set_completedDates)
    then have "uniqueDates dayKey tasks = uniqueDates dayKey tasks'"
      by (simp add: uniqueDates_def sort_new_Set)
    then show "streak dayKey prevDay today tasks = streak dayKey prevDay today tasks'"
      by (simp add: streak_def)
  qed
qed

theorem streak_permutation_invariant_witness:
  "streak day_of day_before ''2024-01-03''
     [completed_on 0, completed_on 172800000, completed_on 86400000]
   = streak day_of day_before ''2024-01-03''
     [completed_on 172800000, completed_on 86400000, completed_on 0]
   \<and> streak day_of day_before ''2024-01-03''
     [completed_on 0, completed_on 172800000, completed_on 86400000] = 3"
proof -
  have "mset [completed_on 0, completed_on 172800000, completed_on 86400000]
          = mset [completed_on 172800000, completed_on 86400000, completed_on 0]"
    by (simp add: add.commute)
  then have "streak day_of day_before ''2024-01-03''
     [completed_on 0, completed_on 172800000, completed_on 86400000]
   = streak day_of day_before ''2024-01-03''
     [completed_on 172800000, completed_on 86400000, completed_on 0]"
    using streak_permutation_invariant by blast
  moreover have "streak day_of day_before ''2024-01-03''
     [completed_on 0, completed_on 172800000, completed_on 86400000] = 3"
    by code_simp
  ultimately show ?thesis by simp
qed


section \<open>Properties of \<open>generateSmartTaskRecommendations\<close>\<close>

lemma set_insert_by: "set (insert_by cmp x ys) = insert x (set ys)"
  by (induction ys) auto

lemma mset_insert_by: "mset (insert_by cmp x ys) = add_mset x (mset ys)"
  by (induction ys) auto

lemma mset_stable_sort_foldl:
  "mset (foldl (\<lambda>sorted x. insert_by cmp x sorted) acc xs) = mset acc + mset xs"
  by (induction xs arbitrary: acc) (simp_all add: mset_insert_by)

lemma mset_stable_sort: "mset (stable_sort cmp xs) = mset xs"
  by (simp add: stable_sort_def mset_stable_sort_foldl)

lemma insert_by_takeWhile:
  "insert_by cmp x ys =
     takeWhile (\<lambda>y. 0 \<le> cmp x y) ys @ x # dropWhile (\<lambda>y. 0 \<le> cmp x y) ys"
  by (induction ys) auto

text \<open>
  A comparison function that is consistent for a set orders it like a weak order: the
  three signs exclude one another in both directions, and "not less" is transitive.
\<close>

lemma consistent_less_greater:
  assumes "consistent_comparator cmp S" "a \<in> S" "b \<in> S" "cmp a b < 0"
  shows "0 < cmp b a"
proof (rule ccontr)
  assume "\<not> 0 < cmp b a"
  then consider "cmp b a < 0" | "cmp b a = 0" by linarith
  then show False
  proof cases
    case 1
    then have "cmp a a < 0"
      using assms unfolding consistent_comparator_def by blast
    moreover have "cmp a a = 0"
      using assms unfolding consistent_comparator_def by blast
    ultimately show False by simp
  next
    case 2
    then have "cmp a b = 0"
      using assms unfolding consistent_comparator_def by blast
    then show False using assms(4) by simp
  qed
qed

lemma consistent_greater_less:
  assumes "consistent_comparator cmp S" "a \<in> S" "b \<in> S" "0 < cmp a b"
  shows "cmp b a < 0"
proof (rule ccontr)
  assume "\<not> cmp b a < 0"
  then consider "0 < cmp b a" | "cmp b a = 0" by linarith
  then show False
  proof cases
    case 1
    then have "0 < cmp a a"
      using assms unfolding consistent_comparator_def by blast
    moreover have "cmp a a = 0"
      using assms unfolding consistent_comparator_def by blast
    ultimately show False by simp
  next
    case 2
    then have "cmp a b = 0"
      using assms unfolding consistent_comparator_def by blast
    then show False using assms(4) by simp
  qed
qed

lemma consistent_ge_trans:
  assumes c: "consistent_comparator cmp S" and S: "a \<in> S" "b \<in> S" "c \<in> S"
    and ab: "0 \<le> cmp a b" and bc: "0 \<le> cmp b c"
  shows "0 \<le> cmp a c"
proof (rule ccontr)
  assume "\<not> 0 \<le> cmp a c"
  then have ac: "cmp a c < 0" by simp
  then have ca: "0 < cmp c a" using consistent_less_greater [OF c S(1) S(3)] by simp
  consider "0 < cmp a b" "0 < cmp b c" | "cmp a b = 0" "cmp b c = 0"
    | "cmp a b = 0" "0 < cmp b c" | "0 < cmp a b" "cmp b c = 0"
    using ab bc by linarith
  then show False
  proof cases
    case 1
    then have "0 < cmp a c" using c S unfolding consistent_comparator_def by blast
    then show False using ac by simp
  next
    case 2
    then have "cmp a c = 0" using c S unfolding consistent_comparator_def by blast
    then show False using ac by simp
  next
    case 3
    then have "cmp c b < 0" using consistent_greater_less [OF c S(2) S(3)] by simp
    with ac have "cmp a b < 0" using c S unfolding consistent_comparator_def by blast
    then show False using 3 by simp
  next
    case 4
    then have "cmp b a < 0" using consistent_greater_less [OF c S(1) S(2)] by simp
    with ac have "cmp b c < 0" using c S unfolding consistent_comparator_def by blast
    then show False using 4 by simp
  qed
qed

lemma consistent_less_ge:
  assumes c: "consistent_comparator cmp S" and S: "p \<in> S" "m \<in> S" "i \<in> S"
    and pm: "cmp p m < 0" and im: "0 \<le> cmp i m"
  shows "cmp p i < 0"
proof (rule ccontr)
  assume "\<not> cmp p i < 0"
  then have "0 \<le> cmp p i" by simp
  from consistent_ge_trans [OF c S(1) S(3) S(2) this im] pm show False by simp
qed

lemma consistent_subset:
  "consistent_comparator cmp S \<Longrightarrow> T \<subseteq> S \<Longrightarrow> consistent_comparator cmp T"
  unfolding consistent_comparator_def by blast

text \<open>
  On a part that is in ascending order, the binary search ends at the first element the
  pivot is less than, so the insertion is the stable one.
\<close>

declare binary_search.simps [simp del]

lemma binary_search_bounds:
  "consistent_comparator cmp S \<Longrightarrow> pivot \<in> S \<Longrightarrow> set xs \<subseteq> S \<Longrightarrow> ascending cmp xs \<Longrightarrow>
   left \<le> right \<Longrightarrow> right \<le> length xs \<Longrightarrow>
   \<forall>i<left. 0 \<le> cmp pivot (xs ! i) \<Longrightarrow>
   \<forall>i. right \<le> i \<and> i < length xs \<longrightarrow> cmp pivot (xs ! i) < 0 \<Longrightarrow>
   binary_search cmp pivot xs left right \<le> length xs
   \<and> (\<forall>i < binary_search cmp pivot xs left right. 0 \<le> cmp pivot (xs ! i))
   \<and> (\<forall>i. binary_search cmp pivot xs left right \<le> i \<and> i < length xs
          \<longrightarrow> cmp pivot (xs ! i) < 0)"
proof (induction cmp pivot xs left right rule: binary_search.induct)
  case (1 cmp pivot xs left right)
  show ?case
  proof (cases "left < right")
    case False
    then have "binary_search cmp pivot xs left right = left"
      by (subst binary_search.simps) simp
    moreover have "left = right" using False "1.prems"(5) by simp
    ultimately show ?thesis using "1.prems" by simp
  next
    case True
    define mid where "mid = left + (right - left) div 2"
    have mid: "left \<le> mid" "mid < right" using True by (simp_all add: mid_def)
    then have midlen: "mid < length xs" using "1.prems"(6) by simp
    have inS: "xs ! i \<in> S" if "i < length xs" for i
      using that "1.prems"(3) by (meson nth_mem subsetD)
    show ?thesis
    proof (cases "cmp pivot (xs ! mid) < 0")
      case less: True
      have eq: "binary_search cmp pivot xs left right = binary_search cmp pivot xs left mid"
        using True less by (subst binary_search.simps) (simp add: mid_def Let_def)
      have up: "\<forall>i. mid \<le> i \<and> i < length xs \<longrightarrow> cmp pivot (xs ! i) < 0"
      proof (intro allI impI)
        fix i assume i: "mid \<le> i \<and> i < length xs"
        show "cmp pivot (xs ! i) < 0"
        proof (cases "i = mid")
          case True
          then show ?thesis using less by simp
        next
          case False
          then have "mid < i" using i by simp
          then have "0 \<le> cmp (xs ! i) (xs ! mid)"
            using "1.prems"(4) i unfolding ascending_def by (simp add: sorted_wrt_iff_nth_less)
          then show ?thesis
            using consistent_less_ge [OF "1.prems"(1) "1.prems"(2) inS [OF midlen] inS less] i
            by simp
        qed
      qed
      have "binary_search cmp pivot xs left mid \<le> length xs
   \<and> (\<forall>i < binary_search cmp pivot xs left mid. 0 \<le> cmp pivot (xs ! i))
   \<and> (\<forall>i. binary_search cmp pivot xs left mid \<le> i \<and> i < length xs
          \<longrightarrow> cmp pivot (xs ! i) < 0)"
        using "1.IH"(1) [OF True mid_def less "1.prems"(1-4) mid(1) _ "1.prems"(7) up] midlen
        by simp
      then show ?thesis unfolding eq .
    next
      case ge: False
      have eq: "binary_search cmp pivot xs left right = binary_search cmp pivot xs (mid + 1) right"
        using True ge by (subst binary_search.simps) (simp add: mid_def Let_def)
      have low: "\<forall>i<mid + 1. 0 \<le> cmp pivot (xs ! i)"
      proof (intro allI impI)
        fix i assume i: "i < mid + 1"
        show "0 \<le> cmp pivot (xs ! i)"
        proof (cases "i = mid")
          case True
          then show ?thesis using ge by simp
        next
          case False
          then have lt: "i < mid" using i by simp
          then have "0 \<le> cmp (xs ! mid) (xs ! i)"
            using "1.prems"(4) midlen unfolding ascending_def
            by (simp add: sorted_wrt_iff_nth_less)
          moreover have "i < length xs" using lt midlen by simp
          ultimately show ?thesis
            using consistent_ge_trans [OF "1.prems"(1) "1.prems"(2) inS [OF midlen] inS, of i] ge
            by simp
        qed
      qed
      have "binary_search cmp pivot xs (mid + 1) right \<le> length xs
   \<and> (\<forall>i < binary_search cmp pivot xs (mid + 1) right. 0 \<le> cmp pivot (xs ! i))
   \<and> (\<forall>i. binary_search cmp pivot xs (mid + 1) right \<le> i \<and> i < length xs
          \<longrightarrow> cmp pivot (xs ! i) < 0)"
        using "1.IH"(2) [OF True mid_def ge "1.prems"(1-4) _ "1.prems"(6) low "1.prems"(8)] mid
        by simp
      then show ?thesis unfolding eq .
    qed
  qed
qed

lemma mset_binary_insert: "mset (binary_insert cmp xs pivot) = add_mset pivot (mset xs)"
proof -
  have "mset (take k xs @ pivot # drop k xs) = add_mset pivot (mset xs)" for k
    by (metis append_take_drop_id mset_append add_mset_add_single mset.simps(2) union_mset_add_mset_right)
  then show ?thesis by (simp add: binary_insert_def Let_def)
qed

lemma binary_insert_eq_insert_by:
  assumes c: "consistent_comparator cmp S" and p: "pivot \<in> S" and xs: "set xs \<subseteq> S"
    and asc: "ascending cmp xs"
  shows "binary_insert cmp xs pivot = insert_by cmp pivot xs"
proof -
  define k where "k = binary_search cmp pivot xs 0 (length xs)"
  have k: "k \<le> length xs" "\<forall>i<k. 0 \<le> cmp pivot (xs ! i)"
      "\<forall>i. k \<le> i \<and> i < length xs \<longrightarrow> cmp pivot (xs ! i) < 0"
    using binary_search_bounds [OF c p xs asc, of 0 "length xs"] unfolding k_def by simp_all
  have tw: "takeWhile (\<lambda>y. 0 \<le> cmp pivot y) xs = take k xs"
    by (rule takeWhile_eq_take_P_nth) (use k in auto)
  then have "length (takeWhile (\<lambda>y. 0 \<le> cmp pivot y) xs) = k"
    using k(1) by simp
  then have dw: "dropWhile (\<lambda>y. 0 \<le> cmp pivot y) xs = drop k xs"
    by (simp add: dropWhile_eq_drop)
  show ?thesis
    by (simp add: binary_insert_def Let_def insert_by_takeWhile tw dw k_def [symmetric])
qed

text \<open>
  Inserting keeps a list sorted for any transitive relation that the comparison function
  respects on the elements at hand.
\<close>

lemma sorted_wrt_insert_by:
  assumes trans: "\<And>a b c. R a b \<Longrightarrow> R b c \<Longrightarrow> R a c"
    and cmp: "\<forall>y \<in> set ys. (cmp x y < 0 \<longrightarrow> R x y) \<and> (0 \<le> cmp x y \<longrightarrow> R y x)"
    and sorted: "sorted_wrt R ys"
  shows "sorted_wrt R (insert_by cmp x ys)"
  using cmp sorted
proof (induction ys)
  case Nil
  then show ?case by simp
next
  case (Cons y ys)
  show ?case
  proof (cases "cmp x y < 0")
    case True
    then have xy: "R x y" using Cons.prems(1) by simp
    have "\<forall>z \<in> set ys. R x z"
      using Cons.prems(2) xy trans by auto
    then show ?thesis using True xy Cons.prems(2) by simp
  next
    case False
    then have yx: "R y x" using Cons.prems(1) by simp
    have "sorted_wrt R (insert_by cmp x ys)"
      using Cons by simp
    then show ?thesis using False yx Cons.prems(2) by (auto simp: set_insert_by)
  qed
qed

lemma not_less_in_trans:
  "consistent_comparator cmp S \<Longrightarrow> not_less_in cmp S a b \<Longrightarrow> not_less_in cmp S b c
     \<Longrightarrow> not_less_in cmp S a c"
  unfolding not_less_in_def using consistent_ge_trans [of cmp S c b a] by blast

lemma ascending_iff:
  "set xs \<subseteq> S \<Longrightarrow> ascending cmp xs = sorted_wrt (not_less_in cmp S) xs"
  unfolding ascending_def not_less_in_def
  by (induction xs) auto

lemma ascending_insert_by:
  assumes c: "consistent_comparator cmp S" and x: "x \<in> S" and ys: "set ys \<subseteq> S"
    and asc: "ascending cmp ys"
  shows "ascending cmp (insert_by cmp x ys)"
proof -
  have "sorted_wrt (not_less_in cmp S) (insert_by cmp x ys)"
  proof (rule sorted_wrt_insert_by)
    show "\<And>a b c. not_less_in cmp S a b \<Longrightarrow> not_less_in cmp S b c \<Longrightarrow> not_less_in cmp S a c"
      by (rule not_less_in_trans [OF c])
    show "\<forall>y \<in> set ys. (cmp x y < 0 \<longrightarrow> not_less_in cmp S x y)
                       \<and> (0 \<le> cmp x y \<longrightarrow> not_less_in cmp S y x)"
      using x ys consistent_less_greater [OF c x] unfolding not_less_in_def
      by (auto simp: less_imp_le subset_iff)
    show "sorted_wrt (not_less_in cmp S) ys"
      using asc ascending_iff [OF ys] by simp
  qed
  moreover have "set (insert_by cmp x ys) \<subseteq> S"
    using x ys by (simp add: set_insert_by)
  ultimately show ?thesis using ascending_iff by blast
qed

lemma foldl_binary_insert:
  "consistent_comparator cmp S \<Longrightarrow> set acc \<subseteq> S \<Longrightarrow> set xs \<subseteq> S \<Longrightarrow> ascending cmp acc \<Longrightarrow>
   foldl (binary_insert cmp) acc xs = foldl (\<lambda>sorted x. insert_by cmp x sorted) acc xs"
proof (induction xs arbitrary: acc)
  case Nil
  then show ?case by simp
next
  case (Cons x xs)
  have x: "x \<in> S" using Cons.prems(3) by simp
  have eq: "binary_insert cmp acc x = insert_by cmp x acc"
    by (rule binary_insert_eq_insert_by [OF Cons.prems(1) x Cons.prems(2) Cons.prems(4)])
  have "set (insert_by cmp x acc) \<subseteq> S"
    using x Cons.prems(2) by (simp add: set_insert_by)
  moreover have "ascending cmp (insert_by cmp x acc)"
    by (rule ascending_insert_by [OF Cons.prems(1) x Cons.prems(2) Cons.prems(4)])
  moreover have "set xs \<subseteq> S" using Cons.prems(3) by simp
  ultimately show ?case
    using Cons.IH [OF Cons.prems(1)] eq by simp
qed

lemma ascending_foldl_insert_by:
  "consistent_comparator cmp S \<Longrightarrow> set acc \<subseteq> S \<Longrightarrow> set xs \<subseteq> S \<Longrightarrow> ascending cmp acc \<Longrightarrow>
   ascending cmp (foldl (\<lambda>sorted x. insert_by cmp x sorted) acc xs)"
proof (induction xs arbitrary: acc)
  case Nil
  then show ?case by simp
next
  case (Cons x xs)
  have x: "x \<in> S" using Cons.prems(3) by simp
  have "set (insert_by cmp x acc) \<subseteq> S"
    using x Cons.prems(2) by (simp add: set_insert_by)
  moreover have "ascending cmp (insert_by cmp x acc)"
    by (rule ascending_insert_by [OF Cons.prems(1) x Cons.prems(2) Cons.prems(4)])
  moreover have "set xs \<subseteq> S" using Cons.prems(3) by simp
  ultimately show ?case
    using Cons.IH [OF Cons.prems(1)] by simp
qed

lemma ascending_stable_sort:
  "consistent_comparator cmp (set xs) \<Longrightarrow> ascending cmp (stable_sort cmp xs)"
  unfolding stable_sort_def
  by (rule ascending_foldl_insert_by [where S = "set xs"]) (simp_all add: ascending_def)

text \<open>
  The run the engine keeps at the start is already what the stable sort makes of these
  elements: a non-descending run is left as it is, a strictly descending run is reversed.
\<close>

lemma stable_sort_snoc:
  "stable_sort cmp (xs @ [x]) = insert_by cmp x (stable_sort cmp xs)"
  by (simp add: stable_sort_def)

lemma stable_sort_append:
  "stable_sort cmp (xs @ ys) = foldl (\<lambda>sorted x. insert_by cmp x sorted) (stable_sort cmp xs) ys"
  by (simp add: stable_sort_def)

lemma insert_by_last:
  "\<forall>y \<in> set ys. 0 \<le> cmp x y \<Longrightarrow> insert_by cmp x ys = ys @ [x]"
  by (induction ys) auto

lemma stable_sort_ascending:
  "ascending cmp xs \<Longrightarrow> stable_sort cmp xs = xs"
proof (induction xs rule: rev_induct)
  case Nil
  show ?case by (simp add: stable_sort_def)
next
  case (snoc x xs)
  then have asc: "ascending cmp xs" and ge: "\<forall>y \<in> set xs. 0 \<le> cmp x y"
    unfolding ascending_def by (simp_all add: sorted_wrt_append)
  show ?case
    using snoc.IH [OF asc] ge by (simp add: stable_sort_snoc insert_by_last)
qed

lemma stable_sort_descending:
  "successively (\<lambda>a b. cmp b a < 0) xs \<Longrightarrow> stable_sort cmp xs = rev xs"
proof (induction xs rule: rev_induct)
  case Nil
  show ?case by (simp add: stable_sort_def)
next
  case (snoc x xs)
  have s: "successively (\<lambda>a b. cmp b a < 0) xs"
    using snoc.prems by (simp add: successively_append_iff)
  show ?case
  proof (cases xs rule: rev_cases)
    case Nil
    then show ?thesis by (simp add: stable_sort_def)
  next
    case (snoc ys y)
    then have "cmp x y < 0"
      using snoc.prems \<open>successively (\<lambda>a b. cmp b a < 0) (xs @ [x])\<close>
      by (simp add: successively_append_iff)
    have "stable_sort cmp (xs @ [x]) = insert_by cmp x (rev xs)"
      using snoc.IH [OF s] by (simp only: stable_sort_snoc)
    also have "\<dots> = x # rev xs"
      using \<open>cmp x y < 0\<close> snoc by simp
    finally show ?thesis by simp
  qed
qed

lemma successively_run_length:
  "successively (\<lambda>a b. if desc then cmp b a < 0 else 0 \<le> cmp b a)
     (prev # take (run_length cmp desc prev xs) xs)"
  by (induction xs arbitrary: prev) (auto simp: Let_def)

lemma mset_foldl_binary_insert:
  "mset (foldl (binary_insert cmp) acc xs) = mset acc + mset xs"
  by (induction xs arbitrary: acc) (simp_all add: mset_binary_insert)

lemma mset_CountAndMakeRun:
  "CountAndMakeRun cmp xs = (run, rest) \<Longrightarrow> mset run + mset rest = mset xs"
proof -
  have td: "mset (take n ys) + mset (drop n ys) = mset ys" for n and ys :: "'a list"
    by (metis append_take_drop_id mset_append)
  assume "CountAndMakeRun cmp xs = (run, rest)"
  then show ?thesis
    using td by (auto simp: CountAndMakeRun_def Let_def split: list.splits if_splits)
qed

lemma mset_v8_sort: "mset (v8_sort cmp xs) = mset xs"
proof -
  obtain run rest where r: "CountAndMakeRun cmp xs = (run, rest)"
    by (cases "CountAndMakeRun cmp xs")
  then show ?thesis
    using mset_CountAndMakeRun [OF r] by (simp add: v8_sort_def mset_foldl_binary_insert)
qed

lemma ascending_successively:
  assumes c: "consistent_comparator cmp S" and xs: "set xs \<subseteq> S"
    and s: "successively (\<lambda>a b. 0 \<le> cmp b a) xs"
  shows "ascending cmp xs"
proof -
  have "successively (not_less_in cmp S) xs"
    using s xs by (induction xs rule: induct_list012) (auto simp: not_less_in_def)
  moreover have "transp (not_less_in cmp S)"
    using not_less_in_trans [OF c] by (auto intro!: transpI)
  ultimately have "sorted_wrt (not_less_in cmp S) xs"
    by (simp add: successively_conv_sorted_wrt)
  then show ?thesis using ascending_iff [OF xs] by simp
qed

lemma CountAndMakeRun_stable_sort:
  assumes c: "consistent_comparator cmp (set xs)"
    and r: "CountAndMakeRun cmp xs = (run, rest)"
  shows "\<exists>n. run = stable_sort cmp (take n xs) \<and> rest = drop n xs"
proof (cases xs)
  case Nil
  then show ?thesis using r by (simp add: CountAndMakeRun_def stable_sort_def)
next
  case (Cons hi tl)
  show ?thesis
  proof (cases tl)
    case Nil
    then have "run = [hi]" "rest = []" using r Cons by (simp_all add: CountAndMakeRun_def)
    then have "run = stable_sort cmp (take 1 xs) \<and> rest = drop 1 xs"
      using Cons Nil by (simp add: stable_sort_def)
    then show ?thesis by blast
  next
    case (Cons lo more)
    define desc where "desc = (cmp lo hi < 0)"
    define n where "n = 2 + run_length cmp desc lo more"
    have xs: "xs = hi # lo # more" using \<open>xs = hi # tl\<close> Cons by simp
    have tk: "take n xs = hi # lo # take (run_length cmp desc lo more) more"
      by (simp add: xs n_def)
    have succ: "successively (\<lambda>a b. if desc then cmp b a < 0 else 0 \<le> cmp b a) (take n xs)"
      using successively_run_length [of desc cmp lo more]
      unfolding tk by (simp add: desc_def)
    have "CountAndMakeRun cmp xs = (if desc then rev (take n xs) else take n xs, drop n xs)"
      unfolding xs by (simp add: CountAndMakeRun_def Let_def desc_def n_def)
    then have rr: "run = (if desc then rev (take n xs) else take n xs)" "rest = drop n xs"
      using r by simp_all
    show ?thesis
    proof (cases desc)
      case True
      then have "stable_sort cmp (take n xs) = rev (take n xs)"
        using succ by (intro stable_sort_descending) simp
      then have "run = stable_sort cmp (take n xs) \<and> rest = drop n xs"
        using rr True by simp
      then show ?thesis by blast
    next
      case False
      then have "successively (\<lambda>a b. 0 \<le> cmp b a) (take n xs)"
        using succ by simp
      then have "ascending cmp (take n xs)"
        by (rule ascending_successively [OF c set_take_subset])
      then have "stable_sort cmp (take n xs) = take n xs"
        by (rule stable_sort_ascending)
      then have "run = stable_sort cmp (take n xs) \<and> rest = drop n xs"
        using rr False by simp
      then show ?thesis by blast
    qed
  qed
qed

lemma v8_sort_stable_sort:
  assumes c: "consistent_comparator cmp (set xs)"
  shows "v8_sort cmp xs = stable_sort cmp xs"
proof -
  obtain run rest where r: "CountAndMakeRun cmp xs = (run, rest)"
    by (cases "CountAndMakeRun cmp xs")
  from CountAndMakeRun_stable_sort [OF c r]
  obtain n where n: "run = stable_sort cmp (take n xs)" "rest = drop n xs"
    by blast
  have ct: "consistent_comparator cmp (set (take n xs))"
    by (rule consistent_subset [OF c set_take_subset])
  have asc: "ascending cmp run"
    unfolding n by (rule ascending_stable_sort [OF ct])
  have "set run \<subseteq> set xs"
    using mset_stable_sort [of cmp "take n xs"] set_take_subset [of n xs]
    unfolding n by (metis set_mset_mset)
  moreover have "set rest \<subseteq> set xs"
    unfolding n by (rule set_drop_subset)
  ultimately have "foldl (binary_insert cmp) run rest
                     = foldl (\<lambda>sorted x. insert_by cmp x sorted) run rest"
    using foldl_binary_insert [OF c _ _ asc] by blast
  also have "\<dots> = stable_sort cmp (take n xs @ drop n xs)"
    unfolding n by (simp only: stable_sort_append)
  finally show ?thesis by (simp add: v8_sort_def r)
qed

text \<open>The engine's sort conforms to what the language prescribes.\<close>

lemma conforming_v8_sort: "conforming v8_sort"
  unfolding conforming_def using mset_v8_sort v8_sort_stable_sort by blast

lemma conforming_stable_sort: "conforming stable_sort"
  unfolding conforming_def using mset_stable_sort by blast

text \<open>
  The comparison of the tasks is consistent when the priorities are in the table and no
  priority has both dated and undated tasks; then it is the order by descending weight,
  then ascending due date.
\<close>

lemma weightOf_known:
  "known_priority t \<Longrightarrow> priorityWeight (priority t) = Some (Number (weightOf t))"
  unfolding known_priority_def weightOf_def priorityWeight_def property_def
  by (elim disjE) simp_all

lemma weightOf_eq_priority:
  "known_priority a \<Longrightarrow> known_priority b \<Longrightarrow> weightOf a = weightOf b \<Longrightarrow> priority a = priority b"
  unfolding known_priority_def weightOf_def priorityWeight_def property_def
  by (elim disjE) simp_all

lemma compareTasks_uniform:
  assumes "known_priority a" "known_priority b"
    and "priority a = priority b \<longrightarrow> (due_date a = None \<longleftrightarrow> due_date b = None)"
  shows "compareTasks a b =
           (if weightOf a \<noteq> weightOf b then weightOf b - weightOf a else dueOf a - dueOf b)"
proof (cases "weightOf a = weightOf b")
  case False
  then show ?thesis
    using assms(1,2) by (simp add: compareTasks_def weightOf_known)
next
  case True
  then have "priority a = priority b"
    using assms(1,2) by (rule weightOf_eq_priority [rotated 2])
  then show ?thesis
    using True assms by (auto simp: compareTasks_def dueOf_def or0_def)
qed

lemma consistent_compareTasks:
  assumes k: "\<forall>t \<in> set ts. known_priority t" and u: "uniform_due ts"
  shows "consistent_comparator compareTasks (set ts)"
proof -
  have f: "compareTasks a b =
           (if weightOf a \<noteq> weightOf b then weightOf b - weightOf a else dueOf a - dueOf b)"
    if "a \<in> set ts" "b \<in> set ts" for a b
    using that k u compareTasks_uniform [of a b] unfolding uniform_due_def by blast
  show ?thesis
    unfolding consistent_comparator_def
    by (intro conjI ballI impI) (auto simp: f split: if_splits)
qed

lemma compareTasks_weight:
  assumes "known_priority a" "known_priority b"
  shows "0 \<le> compareTasks b a \<longrightarrow> weightOf b \<le> weightOf a"
  using assms by (auto simp: compareTasks_def weightOf_known split: option.splits)

lemma compareTasks_due:
  assumes "priority a = priority b" "due_date a \<noteq> None" "due_date b \<noteq> None"
  shows "0 \<le> compareTasks b a \<longrightarrow> dueOf a \<le> dueOf b"
  using assms by (auto simp: compareTasks_def dueOf_def or0_def)

lemma compareTasks_example:
  "compareTasks task_low task_low = 0" "compareTasks task_high task_high = 0"
  "compareTasks task_high_due task_high_due = 0"
  "compareTasks task_low task_high = 2" "compareTasks task_high task_low = - 2"
  "compareTasks task_low task_high_due = 2" "compareTasks task_high_due task_low = - 2"
  "compareTasks task_high task_high_due = 0" "compareTasks task_high_due task_high = 0"
  by (simp_all add: compareTasks_def priorityWeight_def property_def task_low_def task_high_def
        task_high_due_def)

lemma consistent_example:
  "consistent_comparator compareTasks (set [task_low, task_high, task_high_due])"
  unfolding consistent_comparator_def by (simp add: compareTasks_example)

lemma stable_sort_example:
  "stable_sort compareTasks [task_low, task_high, task_high_due]
     = [task_high, task_high_due, task_low]"
  by (simp add: stable_sort_def compareTasks_example)

lemma conforming_Nil: "conforming srt \<Longrightarrow> srt cmp [] = []"
  unfolding conforming_def by (metis mset_zero_iff)

lemma conforming_set: "conforming srt \<Longrightarrow> set (srt cmp xs) = set xs"
  unfolding conforming_def by (metis set_mset_mset)

lemma prioritized_eq:
  "conforming array_sort \<Longrightarrow>
   prioritized array_sort tasks = take 3 (array_sort compareTasks (pending tasks))"
  by (simp add: prioritized_def generateSmartTaskRecommendations_def Let_def recommend_def
        o_def conforming_Nil pending_def)

lemma prioritized_example:
  assumes "conforming array_sort"
  shows "prioritized array_sort [task_low, task_high, task_high_due]
           = [task_high, task_high_due, task_low]"
proof -
  have p: "pending [task_low, task_high, task_high_due] = [task_low, task_high, task_high_due]"
    by (simp add: pending_def task_low_def task_high_def task_high_due_def)
  have "array_sort compareTasks [task_low, task_high, task_high_due]
          = stable_sort compareTasks [task_low, task_high, task_high_due]"
    using assms consistent_example unfolding conforming_def by blast
  then have "array_sort compareTasks [task_low, task_high, task_high_due]
          = [task_high, task_high_due, task_low]"
    by (simp only: stable_sort_example)
  then show ?thesis
    unfolding prioritized_eq [OF assms] p by simp
qed

lemma prioritized_ascending:
  assumes c: "conforming array_sort"
    and cons: "consistent_comparator compareTasks (set (pending tasks))"
  shows "sorted_wrt (\<lambda>a b. 0 \<le> compareTasks b a) (prioritized array_sort tasks)"
proof -
  have eq: "array_sort compareTasks (pending tasks) = stable_sort compareTasks (pending tasks)"
    using c cons unfolding conforming_def by blast
  have "ascending compareTasks (stable_sort compareTasks (pending tasks))"
    by (rule ascending_stable_sort [OF cons])
  then have "sorted_wrt (\<lambda>a b. 0 \<le> compareTasks b a) (stable_sort compareTasks (pending tasks))"
    by (simp add: ascending_def)
  then show ?thesis
    unfolding prioritized_eq [OF c] eq by (rule sorted_wrt_take)
qed

lemma set_prioritized:
  "conforming array_sort \<Longrightarrow> set (prioritized array_sort tasks) \<subseteq> set (pending tasks)"
  unfolding prioritized_eq
  using set_take_subset [of 3 "array_sort compareTasks (pending tasks)"]
  by (simp add: conforming_set)

text \<open>
  C3, as the specification states it, fails. On its own example (a low task without due
  date, a high task without due date, a high task due 2024-01-01) the first
  recommendation is the high task without due date; the high task with the due date comes
  second. And the general clause fails where a task without a due date stands between
  two dated tasks of its priority: for a high task due 2024-06-01, a high task without
  due date and a high task due 2024-01-01, in this order, the engine returns them in this
  order, the later due date first. The same happens between two tasks of a priority
  outside the table with a high task between them.
\<close>

theorem generateSmartTaskRecommendations_example_counterexample:
  "map title (prioritized v8_sort [task_low, task_high, task_high_due]) = [''B'', ''C'', ''A'']
   \<and> due_date (hd (prioritized v8_sort [task_low, task_high, task_high_due])) = None
   \<and> hd (prioritized v8_sort [task_low, task_high, task_high_due]) \<noteq> task_high_due
   \<and> map title (prioritized v8_sort [task_high_due_june, task_high, task_high_due])
       = [''D'', ''B'', ''C'']
   \<and> priority task_high_due_june = priority task_high_due
   \<and> due_date task_high_due_june = Some 1717200000000
   \<and> due_date task_high_due = Some 1704067200000
   \<and> map title (prioritized v8_sort [task_urgent_june, task_high, task_urgent])
       = [''U'', ''B'', ''V'']
   \<and> priority task_urgent_june = priority task_urgent
   \<and> due_date task_urgent_june = Some 1717200000000
   \<and> due_date task_urgent = Some 1704067200000"
  by code_simp

text \<open>
  C3, amended. For every sort that conforms to the language: on the task list of the
  example the recommendations are, in this order, the high task without due date, the
  high task due 2024-01-01 and the low task (a task without a due date compares equal to
  every task of its priority, and the sort is stable); at most 3 recommendations are
  returned, all of them pending tasks of the input; and among pending tasks of equal
  priority that both have due dates the one with the earlier due date is ordered first
  whenever the comparison function is a consistent ordering of the pending tasks. It is
  one when the priorities are among high, medium and low and no priority has both
  pending tasks with and pending tasks without a due date (the due dates being valid
  dates), and then the recommendations are also in descending order of priority weight.
  Otherwise the order is left to the engine's sort.
\<close>

theorem generateSmartTaskRecommendations_order:
  "conforming array_sort \<longrightarrow>
     prioritized array_sort [task_low, task_high, task_high_due]
       = [task_high, task_high_due, task_low]
     \<and> length (recommendations (generateSmartTaskRecommendations array_sort tasks)) \<le> 3
     \<and> set (prioritized array_sort tasks) \<subseteq> {t \<in> set tasks. status t \<noteq> ''completed''}
     \<and> (consistent_comparator compareTasks (set (pending tasks)) \<longrightarrow>
          sorted_wrt (\<lambda>a b. priority a = priority b \<and> due_date a \<noteq> None \<and> due_date b \<noteq> None
                              \<longrightarrow> dueOf a \<le> dueOf b)
            (prioritized array_sort tasks))
     \<and> ((\<forall>t \<in> set (pending tasks). known_priority t) \<and> uniform_due (pending tasks) \<longrightarrow>
          consistent_comparator compareTasks (set (pending tasks))
          \<and> sorted_wrt (\<lambda>a b. weightOf b \<le> weightOf a) (prioritized array_sort tasks))"
proof (intro impI conjI)
  assume c: "conforming array_sort"
  show "prioritized array_sort [task_low, task_high, task_high_due]
          = [task_high, task_high_due, task_low]"
    by (rule prioritized_example [OF c])
  show "length (recommendations (generateSmartTaskRecommendations array_sort tasks)) \<le> 3"
    by (simp add: generateSmartTaskRecommendations_def Let_def)
  show "set (prioritized array_sort tasks) \<subseteq> {t \<in> set tasks. status t \<noteq> ''completed''}"
    using set_prioritized [OF c, of tasks] by (simp add: pending_def)
next
  assume c: "conforming array_sort"
    and cons: "consistent_comparator compareTasks (set (pending tasks))"
  have asc: "sorted_wrt (\<lambda>a b. 0 \<le> compareTasks b a) (prioritized array_sort tasks)"
    by (rule prioritized_ascending [OF c cons])
  show "sorted_wrt (\<lambda>a b. priority a = priority b \<and> due_date a \<noteq> None \<and> due_date b \<noteq> None
                              \<longrightarrow> dueOf a \<le> dueOf b)
            (prioritized array_sort tasks)"
    by (rule sorted_wrt_mono_rel [OF _ asc]) (use compareTasks_due in blast)
next
  assume c: "conforming array_sort"
    and k: "(\<forall>t \<in> set (pending tasks). known_priority t) \<and> uniform_due (pending tasks)"
  then show cons: "consistent_comparator compareTasks (set (pending tasks))"
    using consistent_compareTasks by blast
  have asc: "sorted_wrt (\<lambda>a b. 0 \<le> compareTasks b a) (prioritized array_sort tasks)"
    by (rule prioritized_ascending [OF c cons])
  show "sorted_wrt (\<lambda>a b. weightOf b \<le> weightOf a) (prioritized array_sort tasks)"
  proof (rule sorted_wrt_mono_rel [OF _ asc])
    fix a b
    assume "a \<in> set (prioritized array_sort tasks)" "b \<in> set (prioritized array_sort tasks)"
      and "0 \<le> compareTasks b a"
    then show "weightOf b \<le> weightOf a"
      using k set_prioritized [OF c, of tasks] compareTasks_weight [of a b] by blast
  qed
qed

theorem generateSmartTaskRecommendations_order_witness:
  "prioritized v8_sort [task_low, task_high, task_high_due]
     = [task_high, task_high_due, task_low]
   \<and> prioritized v8_sort [task_high_due_june, task_low, task_high_due]
       = [task_high_due, task_high_due_june, task_low]
   \<and> dueOf task_high_due \<le> dueOf task_high_due_june
   \<and> weightOf task_low \<le> weightOf task_high_due_june
   \<and> length (recommendations
               (generateSmartTaskRecommendations v8_sort
                  [task_high_due_june, task_low, task_high_due])) \<le> 3"
proof -
  note T = generateSmartTaskRecommendations_order
             [of v8_sort "[task_high_due_june, task_low, task_high_due]"]
  have pd: "pending [task_high_due_june, task_low, task_high_due]
              = [task_high_due_june, task_low, task_high_due]"
    by (simp add: pending_def task_high_due_june_def task_low_def task_high_due_def)
  have k: "(\<forall>t \<in> set (pending [task_high_due_june, task_low, task_high_due]). known_priority t)
           \<and> uniform_due (pending [task_high_due_june, task_low, task_high_due])"
    unfolding pd
    by (simp add: uniform_due_def task_high_due_june_def task_low_def task_high_due_def
          known_priority_def)
  have p: "prioritized v8_sort [task_high_due_june, task_low, task_high_due]
             = [task_high_due, task_high_due_june, task_low]"
    by code_simp
  have e: "priority task_high_due = priority task_high_due_june
           \<and> due_date task_high_due \<noteq> None \<and> due_date task_high_due_june \<noteq> None"
    by (simp add: task_high_due_june_def task_high_due_def)
  have 1: "prioritized v8_sort [task_low, task_high, task_high_due]
             = [task_high, task_high_due, task_low]"
    using T conforming_v8_sort by blast
  have cons: "consistent_comparator compareTasks
                (set (pending [task_high_due_june, task_low, task_high_due]))"
    using T conforming_v8_sort k by blast
  have 2: "sorted_wrt (\<lambda>a b. priority a = priority b \<and> due_date a \<noteq> None \<and> due_date b \<noteq> None
                              \<longrightarrow> dueOf a \<le> dueOf b)
          (prioritized v8_sort [task_high_due_june, task_low, task_high_due])"
    using T conforming_v8_sort cons by blast
  have 3: "sorted_wrt (\<lambda>a b. weightOf b \<le> weightOf a)
          (prioritized v8_sort [task_high_due_june, task_low, task_high_due])"
    using T conforming_v8_sort k by blast
  have 4: "length (recommendations
               (generateSmartTaskRecommendations v8_sort
                  [task_high_due_june, task_low, task_high_due])) \<le> 3"
    using T conforming_v8_sort by blast
  from 2 have "dueOf task_high_due \<le> dueOf task_high_due_june"
    unfolding p using e by simp
  moreover from 3 have "weightOf task_low \<le> weightOf task_high_due_june"
    unfolding p by simp
  ultimately show ?thesis using 1 p 4 by simp
qed

section \<open>Properties of the offline queue\<close>

lemma queue_saveQueue [simp]: "queue (saveQueue st s) = queue s"
  by (simp add: saveQueue_def setItem_def)

lemma processing_saveQueue [simp]: "processing (saveQueue st s) = processing s"
  by (simp add: saveQueue_def setItem_def)

lemma processing_logs_saveQueue [simp]:
  "processing_logs (console (saveQueue st s)) = processing_logs (console s)"
  by (simp add: saveQueue_def setItem_def processing_logs_def)

lemma processing_logs_snoc [simp]:
  "processing_logs (c @ [Console_log m x]) = processing_logs c @ [x]"
  by (simp add: processing_logs_def)

lemma setItem_throws_saveQueue [simp]:
  "setItem_throws (storage (saveQueue st s)) = setItem_throws (storage s)"
  by (simp add: saveQueue_def setItem_def)

lemma getItem_throws_saveQueue [simp]:
  "getItem_throws (storage (saveQueue st s)) = getItem_throws (storage s)"
  by (simp add: saveQueue_def setItem_def)

lemma stored_saveQueue:
  "\<not> setItem_throws (storage s) \<Longrightarrow> stored (storage (saveQueue st s)) = Some (st (queue s))"
  by (simp add: saveQueue_def setItem_def)

text \<open>The \<open>try\<close> block never throws on a queue that has a head: it always removes it.\<close>

lemma try_block_Cons:
  "queue s = item # rest \<Longrightarrow>
   try_block st s = Inr (saveQueue st
     (s\<lparr>console := console s @ [Console_log ''Processing queued operation:'' item],
        queue := rest\<rparr>))"
  by (simp add: try_block_def Let_def)

lemma try_block_returns: "queue s \<noteq> [] \<Longrightarrow> \<exists>s'. try_block st s = Inr s'"
  by (cases "queue s") (simp_all add: try_block_Cons)

lemma process_loop_offline: "process_loop st False s = s"
  by simp

lemma process_loop_Nil: "queue s = [] \<Longrightarrow> process_loop st onLine s = s"
  by simp

declare process_loop.simps [simp del]

lemma process_loop_Cons:
  "queue s = item # rest \<Longrightarrow>
   process_loop st True s = process_loop st True (saveQueue st
     (s\<lparr>console := console s @ [Console_log ''Processing queued operation:'' item],
        queue := rest\<rparr>))"
  by (subst process_loop.simps) (simp add: try_block_Cons)

lemma process_loop_online:
  "queue s = q \<Longrightarrow>
   queue (process_loop st True s) = [] \<and>
   processing (process_loop st True s) = processing s \<and>
   processing_logs (console (process_loop st True s)) = processing_logs (console s) @ q \<and>
   setItem_throws (storage (process_loop st True s)) = setItem_throws (storage s)"
proof (induction q arbitrary: s)
  case Nil
  then show ?case by (simp add: process_loop_Nil)
next
  case (Cons item rest)
  let ?s' = "saveQueue st
     (s\<lparr>console := console s @ [Console_log ''Processing queued operation:'' item],
        queue := rest\<rparr>)"
  have "queue ?s' = rest" by simp
  from Cons.IH [OF this] show ?case
    by (simp add: process_loop_Cons [OF Cons.prems])
qed

lemma processQueue_offline: "processQueue st False s = s"
  by (simp add: processQueue_def process_loop_offline)

lemma processQueue_reentrant: "processing s \<Longrightarrow> processQueue st onLine s = s"
  by (simp add: processQueue_def)

lemma processQueue_online:
  assumes "\<not> processing s"
  shows "queue (processQueue st True s) = []
       \<and> processing (processQueue st True s) = False
       \<and> processing_logs (console (processQueue st True s))
           = processing_logs (console s) @ queue s"
proof (cases "queue s = []")
  case True
  then show ?thesis using assms by (simp add: processQueue_def)
next
  case False
  have "queue (s\<lparr>processing := True\<rparr>) = queue s" by simp
  from process_loop_online [OF this, of st] False assms show ?thesis
    by (simp add: processQueue_def)
qed

text \<open>
  C1. The claim describes what the comments of \<open>processQueue\<close> announce (remove on
  success, retry at the tail, give up after three failed attempts), and the code does not
  do it: no statement of the \<open>try\<close> block runs the operation, so no attempt can fail and
  the \<open>catch\<close> block is never entered. An operation whose execution would fail is
  logged and removed by its first pass, with no retry.
\<close>

theorem processQueue_removes_on_first_pass:
  "try_block ids_text (idle [queued ''create_task'' 0]) =
     Inr \<lparr>queue = [], processing = False, storage = store (Some ''[]''),
          console = [Console_log ''Processing queued operation:'' (queued ''create_task'' 0)]\<rparr>
   \<and> processQueue ids_text True (idle [queued ''create_task'' 0]) =
     \<lparr>queue = [], processing = False, storage = store (Some ''[]''),
      console = [Console_log ''Processing queued operation:'' (queued ''create_task'' 0)]\<rparr>"
  by (simp add: processQueue_def idle_def process_loop.simps try_block_def saveQueue_def
        setItem_def store_def Let_def ids_text_def)

text \<open>
  C2, as the specification states it, fails: with two operations queued, one pass while
  online processes both and leaves the queue empty.
\<close>

theorem processQueue_two_items_counterexample:
  "processQueue ids_text True (idle [queued ''create_task'' 0, queued ''update_note'' 0]) =
     \<lparr>queue = [], processing = False, storage = store (Some ''[]''),
      console = [Console_log ''Processing queued operation:'' (queued ''create_task'' 0),
                 Console_log ''Processing queued operation:'' (queued ''update_note'' 0)]\<rparr>
   \<and> getQueueLength
        (processQueue ids_text True (idle [queued ''create_task'' 0, queued ''update_note'' 0]))
       = 0"
  by (simp add: processQueue_def idle_def process_loop.simps try_block_def saveQueue_def
        setItem_def store_def Let_def ids_text_def getQueueLength_def)

text \<open>
  C2, amended. A drain pass that starts while online and with no pass in progress goes on
  to the next head after each item it has handled: it processes every queued item, in
  queue order, and ends with the queue empty and the flag released. The pass stops early
  only through the \<open>break\<close> of the \<open>catch\<close> block. Offline, or with a pass already in
  progress, it processes nothing and leaves the state as it is.
\<close>

theorem processQueue_pass:
  "(\<not> processing s \<longrightarrow>
      queue (processQueue st True s) = []
      \<and> processing (processQueue st True s) = False
      \<and> processing_logs (console (processQueue st True s))
          = processing_logs (console s) @ queue s)
   \<and> processQueue st False s = s
   \<and> (processing s \<longrightarrow> processQueue st onLine s = s)"
  using processQueue_online [of s st] processQueue_offline [of st s]
    processQueue_reentrant [of s st onLine]
  by blast

theorem processQueue_pass_witness:
  "queue (processQueue ids_text True
            (idle [queued ''create_task'' 0, queued ''update_note'' 0])) = []
   \<and> processing_logs (console (processQueue ids_text True
            (idle [queued ''create_task'' 0, queued ''update_note'' 0])))
       = [queued ''create_task'' 0, queued ''update_note'' 0]
   \<and> processQueue ids_text False (idle [queued ''create_task'' 0, queued ''update_note'' 0])
       = idle [queued ''create_task'' 0, queued ''update_note'' 0]
   \<and> processQueue ids_text True (busy [queued ''create_task'' 0])
       = busy [queued ''create_task'' 0]"
proof -
  have p: "processing (busy [queued ''create_task'' 0])"
    by (simp add: busy_def)
  have a: "\<not> processing (idle [queued ''create_task'' 0, queued ''update_note'' 0])"
    by (simp add: idle_def)
  have b: "processing_logs (console (idle [queued ''create_task'' 0, queued ''update_note'' 0])) = []"
    by (simp add: idle_def processing_logs_def)
  have c: "queue (idle [queued ''create_task'' 0, queued ''update_note'' 0])
             = [queued ''create_task'' 0, queued ''update_note'' 0]"
    by (simp add: idle_def)
  show ?thesis
    using a b c p
      processQueue_pass [of "idle [queued ''create_task'' 0, queued ''update_note'' 0]"
                           ids_text True]
      processQueue_pass [of "busy [queued ''create_task'' 0]" ids_text True]
    by simp
qed


lemma add_offline:
  "snd (add st False i ts tag p m s)
     = saveQueue st (s\<lparr>queue := queue s @ [new_operation i ts tag p m]\<rparr>)"
  by (simp add: add_def new_operation_def Let_def)

lemma add_online:
  "snd (add st True i ts tag p m s)
     = processQueue st True (saveQueue st (s\<lparr>queue := queue s @ [new_operation i ts tag p m]\<rparr>))"
  by (simp add: add_def new_operation_def Let_def)

lemma add_online_idle:
  assumes "\<not> processing s"
  shows "queue (snd (add st True i ts tag p m s)) = []
       \<and> processing_logs (console (snd (add st True i ts tag p m s)))
           = processing_logs (console s) @ queue s @ [new_operation i ts tag p m]"
proof -
  let ?s2 = "saveQueue st (s\<lparr>queue := queue s @ [new_operation i ts tag p m]\<rparr>)"
  have "\<not> processing ?s2" using assms by simp
  from processQueue_online [OF this, of st] show ?thesis
    by (simp add: add_online)
qed

text \<open>
  C6, as the specification states it, fails. While online the call does not return ahead
  of the drain: \<open>add\<close> awaits \<open>processQueue\<close>, so when the identifier is returned the
  pass has run, and the operation just added to an idle empty queue has been processed
  and removed. And when the storage write throws, the operation is in the in-memory queue
  only: nothing is persisted.
\<close>

theorem add_returns_after_drain_counterexample:
  "add ids_text True 7 ''2024-01-01T00:00:00.000Z'' ''create_task'' JNull (JObject []) (idle [])
     = (7, \<lparr>queue = [], processing = False, storage = store (Some ''[]''),
            console = [Console_log ''Processing queued operation:''
                         (new_operation 7 ''2024-01-01T00:00:00.000Z'' ''create_task'' JNull
                            (JObject []))]\<rparr>)
   \<and> queue (snd (add ids_text False 7 ''2024-01-01T00:00:00.000Z'' ''create_task'' JNull
                    (JObject []) quota_full))
       = [new_operation 7 ''2024-01-01T00:00:00.000Z'' ''create_task'' JNull (JObject [])]
   \<and> stored (storage (snd (add ids_text False 7 ''2024-01-01T00:00:00.000Z'' ''create_task''
                              JNull (JObject []) quota_full)))
       = None"
  by (simp add: add_def new_operation_def processQueue_def idle_def process_loop.simps
        try_block_def saveQueue_def setItem_def store_def Let_def ids_text_def quota_full_def)

text \<open>
  C6, amended. \<open>add\<close> appends a new operation with attempts = 0 at the tail of the
  in-memory queue, saves the queue (the persisted queue then holds the operation too,
  unless the storage write throws, which is logged and leaves the in-memory queue as it
  is), and returns the operation's identifier. While offline the call does nothing else:
  the queue length grows by 1 and no item is processed. While online the call runs a
  drain pass and waits for it before it returns: with no pass already in progress, every
  queued operation, the new one included, has been processed and the queue is empty when
  the identifier is returned.
\<close>

theorem add_enqueue:
  "fst (add st onLine i ts tag p m s) = i
   \<and> attempts (new_operation i ts tag p m) = 0
   \<and> queue (snd (add st False i ts tag p m s)) = queue s @ [new_operation i ts tag p m]
   \<and> getQueueLength (snd (add st False i ts tag p m s)) = getQueueLength s + 1
   \<and> processing (snd (add st False i ts tag p m s)) = processing s
   \<and> processing_logs (console (snd (add st False i ts tag p m s)))
       = processing_logs (console s)
   \<and> (\<not> setItem_throws (storage s) \<longrightarrow>
        stored (storage (snd (add st False i ts tag p m s)))
          = Some (st (queue s @ [new_operation i ts tag p m])))
   \<and> (setItem_throws (storage s) \<longrightarrow>
        stored (storage (snd (add st False i ts tag p m s))) = stored (storage s)
        \<and> console (snd (add st False i ts tag p m s))
            = console s @ [Console_error ''Failed to save offline queue:'' QuotaExceededError])
   \<and> snd (add st True i ts tag p m s)
       = processQueue st True
           (saveQueue st (s\<lparr>queue := queue s @ [new_operation i ts tag p m]\<rparr>))
   \<and> (\<not> processing s \<longrightarrow>
        queue (snd (add st True i ts tag p m s)) = []
        \<and> processing_logs (console (snd (add st True i ts tag p m s)))
            = processing_logs (console s) @ queue s @ [new_operation i ts tag p m])"
proof (intro conjI impI)
  show "fst (add st onLine i ts tag p m s) = i"
    by (simp add: add_def Let_def)
  show "attempts (new_operation i ts tag p m) = 0"
    by (simp add: new_operation_def)
  show "queue (snd (add st False i ts tag p m s)) = queue s @ [new_operation i ts tag p m]"
    by (simp add: add_offline)
  show "getQueueLength (snd (add st False i ts tag p m s)) = getQueueLength s + 1"
    by (simp add: add_offline getQueueLength_def)
  show "processing (snd (add st False i ts tag p m s)) = processing s"
    by (simp add: add_offline)
  show "processing_logs (console (snd (add st False i ts tag p m s)))
          = processing_logs (console s)"
    by (simp add: add_offline)
  show "snd (add st True i ts tag p m s)
       = processQueue st True
           (saveQueue st (s\<lparr>queue := queue s @ [new_operation i ts tag p m]\<rparr>))"
    by (rule add_online)
next
  assume "\<not> setItem_throws (storage s)"
  then show "stored (storage (snd (add st False i ts tag p m s)))
          = Some (st (queue s @ [new_operation i ts tag p m]))"
    by (simp add: add_offline stored_saveQueue)
next
  assume "setItem_throws (storage s)"
  then show "stored (storage (snd (add st False i ts tag p m s))) = stored (storage s)"
    by (simp add: add_offline saveQueue_def setItem_def)
next
  assume "setItem_throws (storage s)"
  then show "console (snd (add st False i ts tag p m s))
            = console s @ [Console_error ''Failed to save offline queue:'' QuotaExceededError]"
    by (simp add: add_offline saveQueue_def setItem_def)
next
  assume "\<not> processing s"
  then show "queue (snd (add st True i ts tag p m s)) = []"
    using add_online_idle by blast
next
  assume "\<not> processing s"
  then show "processing_logs (console (snd (add st True i ts tag p m s)))
            = processing_logs (console s) @ queue s @ [new_operation i ts tag p m]"
    using add_online_idle by blast
qed

theorem add_enqueue_witness:
  "getQueueLength (snd (add ids_text False 7 ''2024-01-01T00:00:00.000Z'' ''update_note''
                          JNull (JObject []) (idle [queued ''create_task'' 0]))) = 2
   \<and> stored (storage (snd (add ids_text False 7 ''2024-01-01T00:00:00.000Z'' ''update_note''
                          JNull (JObject []) (idle [queued ''create_task'' 0]))))
       = Some ''[create_task;update_note;]''
   \<and> queue (snd (add ids_text True 7 ''2024-01-01T00:00:00.000Z'' ''update_note''
                          JNull (JObject []) (idle [queued ''create_task'' 0]))) = []
   \<and> console (snd (add ids_text False 7 ''2024-01-01T00:00:00.000Z'' ''update_note''
                          JNull (JObject []) quota_full))
       = [Console_error ''Failed to save offline queue:'' QuotaExceededError]"
proof -
  have e: "setItem_throws (storage quota_full)"
    by (simp add: quota_full_def)
  have f: "console quota_full = []"
    by (simp add: quota_full_def)
  have 4: "console (snd (add ids_text False 7 ''2024-01-01T00:00:00.000Z'' ''update_note''
                          JNull (JObject []) quota_full))
           = console quota_full
               @ [Console_error ''Failed to save offline queue:'' QuotaExceededError]"
    using e add_enqueue [of ids_text False 7 "''2024-01-01T00:00:00.000Z''" "''update_note''"
                     JNull "JObject []" quota_full]
    by blast
  have a: "\<not> setItem_throws (storage (idle [queued ''create_task'' 0]))"
    by (simp add: idle_def store_def)
  have b: "\<not> processing (idle [queued ''create_task'' 0])"
    by (simp add: idle_def)
  have c: "getQueueLength (idle [queued ''create_task'' 0]) = 1"
    by (simp add: idle_def getQueueLength_def)
  have d: "ids_text (queue (idle [queued ''create_task'' 0])
             @ [new_operation 7 ''2024-01-01T00:00:00.000Z'' ''update_note'' JNull (JObject [])])
           = ''[create_task;update_note;]''"
    by (simp add: idle_def ids_text_def queued_def new_operation_def)
  note T = add_enqueue [of ids_text False 7 "''2024-01-01T00:00:00.000Z''" "''update_note''"
                     JNull "JObject []" "idle [queued ''create_task'' 0]"]
  have 1: "getQueueLength (snd (add ids_text False 7 ''2024-01-01T00:00:00.000Z''
              ''update_note'' JNull (JObject []) (idle [queued ''create_task'' 0])))
           = getQueueLength (idle [queued ''create_task'' 0]) + 1"
    using T by blast
  have 2: "stored (storage (snd (add ids_text False 7 ''2024-01-01T00:00:00.000Z''
              ''update_note'' JNull (JObject []) (idle [queued ''create_task'' 0]))))
           = Some (ids_text (queue (idle [queued ''create_task'' 0])
               @ [new_operation 7 ''2024-01-01T00:00:00.000Z'' ''update_note'' JNull
                    (JObject [])]))"
    using T a by blast
  have 3: "queue (snd (add ids_text True 7 ''2024-01-01T00:00:00.000Z'' ''update_note''
                          JNull (JObject []) (idle [queued ''create_task'' 0]))) = []"
    using T b by blast
  show ?thesis
    using 1 2 3 4 c d f by simp
qed

text \<open>
  C9, as the specification states it, fails: a stored string that is valid JSON but not
  an array is loaded as it parses. With the string \<open>null\<close> under the key, the queue is
  initialized to null, which is not a queue.
\<close>

theorem loadQueue_null_counterexample:
  "loadQueue parse_literal (store (Some ''null'')) = (JNull, [])
   \<and> \<not> is_array (fst (loadQueue parse_literal (store (Some ''null''))))"
  by (simp add: loadQueue_def getItem_def store_def parse_literal_def is_array_def)

text \<open>
  C9, amended. Loading the persisted queue never throws: if the stored string is absent
  or empty, if reading the storage throws or if the string does not parse, the queue is
  initialized to the empty queue; otherwise it is initialized to the value the string
  parses to, whatever that value is (no check that it is an array). So the result is
  always the empty queue or the parsed stored value, and after a successful save it is
  the parse of what was saved.
\<close>

theorem loadQueue_fail_open:
  "(getItem_throws s \<or> stored s = None \<or> stored s = Some []
      \<or> (\<exists>str e. stored s = Some str \<and> JSON_parse str = Inl e)
      \<longrightarrow> fst (loadQueue JSON_parse s) = JArray [])
   \<and> (\<not> getItem_throws s \<and> stored s = Some str \<and> str \<noteq> [] \<and> JSON_parse str = Inr v
      \<longrightarrow> loadQueue JSON_parse s = (v, []))
   \<and> (fst (loadQueue JSON_parse s) = JArray []
      \<or> (\<exists>str. stored s = Some str \<and> JSON_parse str = Inr (fst (loadQueue JSON_parse s))))
   \<and> (\<not> setItem_throws (storage q) \<and> \<not> getItem_throws (storage q)
        \<and> st (queue q) \<noteq> [] \<and> JSON_parse (st (queue q)) = Inr v
      \<longrightarrow> loadQueue JSON_parse (storage (saveQueue st q)) = (v, []))"
proof (intro conjI impI)
  assume "getItem_throws s \<or> stored s = None \<or> stored s = Some []
      \<or> (\<exists>str e. stored s = Some str \<and> JSON_parse str = Inl e)"
  then show "fst (loadQueue JSON_parse s) = JArray []"
    by (auto simp: loadQueue_def getItem_def)
next
  assume "\<not> getItem_throws s \<and> stored s = Some str \<and> str \<noteq> [] \<and> JSON_parse str = Inr v"
  then show "loadQueue JSON_parse s = (v, [])"
    by (simp add: loadQueue_def getItem_def)
next
  show "fst (loadQueue JSON_parse s) = JArray []
      \<or> (\<exists>str. stored s = Some str \<and> JSON_parse str = Inr (fst (loadQueue JSON_parse s)))"
    by (auto simp: loadQueue_def getItem_def split: option.splits sum.splits)
next
  assume a: "\<not> setItem_throws (storage q) \<and> \<not> getItem_throws (storage q)
        \<and> st (queue q) \<noteq> [] \<and> JSON_parse (st (queue q)) = Inr v"
  then have "stored (storage (saveQueue st q)) = Some (st (queue q))"
    by (simp add: stored_saveQueue)
  then show "loadQueue JSON_parse (storage (saveQueue st q)) = (v, [])"
    using a by (simp add: loadQueue_def getItem_def)
qed

theorem loadQueue_fail_open_witness:
  "loadQueue parse_literal (store (Some ''[true]'')) = (JArray [JBool True], [])
   \<and> fst (loadQueue parse_literal (store None)) = JArray []
   \<and> fst (loadQueue parse_literal (store (Some ''{oops''))) = JArray []
   \<and> loadQueue parse_literal (storage (saveQueue ids_text (idle []))) = (JArray [], [])"
proof -
  have d: "\<not> setItem_throws (storage (idle [])) \<and> \<not> getItem_throws (storage (idle []))
             \<and> ids_text (queue (idle [])) \<noteq> []
             \<and> parse_literal (ids_text (queue (idle []))) = Inr (JArray [])"
    by (simp add: idle_def store_def ids_text_def parse_literal_def)
  have a: "\<not> getItem_throws (store (Some ''[true]''))
             \<and> stored (store (Some ''[true]'')) = Some ''[true]'' \<and> ''[true]'' \<noteq> []
             \<and> parse_literal ''[true]'' = Inr (JArray [JBool True])"
    by (simp add: store_def parse_literal_def)
  have b: "stored (store None) = None"
    by (simp add: store_def)
  have c: "\<exists>str e. stored (store (Some ''{oops'')) = Some str \<and> parse_literal str = Inl e"
    by (simp add: store_def parse_literal_def)
  have 1: "loadQueue parse_literal (store (Some ''[true]'')) = (JArray [JBool True], [])"
    using a loadQueue_fail_open [of "store (Some ''[true]'')" parse_literal "''[true]''"
                                   "JArray [JBool True]"]
    by blast
  have 2: "fst (loadQueue parse_literal (store None)) = JArray []"
    using b loadQueue_fail_open [of "store None" parse_literal]
    by blast
  have 3: "fst (loadQueue parse_literal (store (Some ''{oops''))) = JArray []"
    using c loadQueue_fail_open [of "store (Some ''{oops'')" parse_literal]
    by blast
  have 4: "loadQueue parse_literal (storage (saveQueue ids_text (idle []))) = (JArray [], [])"
    using d loadQueue_fail_open [of "store None" parse_literal "[]" "JArray []" "idle []" ids_text]
    by blast
  show ?thesis
    using 1 2 3 4 by simp
qed

end
